theory Spec2Isabelle
  imports Complex_Main "HOL-Library.Sublist"
begin

section \<open>Python strings and the operations the library uses on them\<close>

text \<open>
  A Python \<open>str\<close> is a sequence of Unicode code points; it is modelled as a list of
  natural numbers. \<open>lit\<close> turns an Isabelle string literal (ASCII) into such a
  sequence, so that \<open>lit ''+33''\<close> is the Python literal \<open>'+33'\<close>.
\<close>

type_synonym codepoint = nat
type_synonym pystr = "codepoint list"

definition lit :: "string \<Rightarrow> pystr" where
  "lit s = map of_char s"

text \<open>
  The character classes \<open>\d\<close> and \<open>\s\<close> of \<open>re\<close> (on \<open>str\<close> patterns),
  \<open>str.strip\<close> and \<open>str.upper\<close> consult the Unicode database of the interpreter.
  Their behaviour on ASCII is fixed below; the database's answers for the code points from
  128 on are a parameter of the model, so that every theorem holds whatever the database
  says there.
\<close>

record ucd =
  ucd_decimal :: "codepoint \<Rightarrow> bool"
  ucd_space :: "codepoint \<Rightarrow> bool"
  ucd_upper :: "codepoint \<Rightarrow> pystr"

definition isdigit :: "'x ucd_scheme \<Rightarrow> codepoint \<Rightarrow> bool" where
  \<comment> \<open>the class \<open>\d\<close>: \<open>0\<close> to \<open>9\<close>, and the other decimal digits of Unicode\<close>
  "isdigit U c = (if c < 128 then 48 \<le> c \<and> c \<le> 57 else ucd_decimal U c)"

definition isspace :: "'x ucd_scheme \<Rightarrow> codepoint \<Rightarrow> bool" where
  \<comment> \<open>the class \<open>\s\<close> and the characters \<open>str.strip()\<close> removes: in ASCII, tab to
      carriage return, the four separators 28 to 31, and the space\<close>
  "isspace U c =
     (if c < 128 then (9 \<le> c \<and> c \<le> 13) \<or> (28 \<le> c \<and> c \<le> 32) else ucd_space U c)"

definition upper_char :: "'x ucd_scheme \<Rightarrow> codepoint \<Rightarrow> pystr" where
  "upper_char U c =
     (if c < 128 then (if 97 \<le> c \<and> c \<le> 122 then [c - 32] else [c]) else ucd_upper U c)"

definition upper :: "'x ucd_scheme \<Rightarrow> pystr \<Rightarrow> pystr" where
  \<comment> \<open>\<open>str.upper()\<close>: character by character (one character may become several)\<close>
  "upper U s = concat (map (upper_char U) s)"

definition strip :: "'x ucd_scheme \<Rightarrow> pystr \<Rightarrow> pystr" where
  \<comment> \<open>\<open>str.strip()\<close>: whitespace removed at both ends\<close>
  "strip U s = rev (dropWhile (isspace U) (rev (dropWhile (isspace U) s)))"

definition lstrip :: "pystr \<Rightarrow> pystr \<Rightarrow> pystr" where
  \<comment> \<open>\<open>s.lstrip(chars)\<close>: \<open>chars\<close> is a set of characters, not a prefix\<close>
  "lstrip s chars = dropWhile (\<lambda>c. c \<in> set chars) s"

definition startswith :: "'a list \<Rightarrow> 'a list \<Rightarrow> bool" where
  "startswith s p = (take (length p) s = p)"

definition replace_char :: "pystr \<Rightarrow> codepoint \<Rightarrow> pystr \<Rightarrow> pystr" where
  \<comment> \<open>\<open>s.replace(old, new)\<close> for a one-character \<open>old\<close>\<close>
  "replace_char s old new = concat (map (\<lambda>c. if c = old then new else [c]) s)"

fun join :: "'a list \<Rightarrow> 'a list list \<Rightarrow> 'a list" where
  "join sep [] = []"
| "join sep [x] = x"
| "join sep (x # y # ys) = x @ sep @ join sep (y # ys)"

text \<open>
  Slices \<open>s[lo:hi]\<close> with Python's rules: a negative bound counts from the end, every
  bound is clamped to the string, and an empty range gives the empty string. An omitted
  bound is \<open>None\<close>.
\<close>

definition slice_bound :: "nat \<Rightarrow> int \<Rightarrow> nat" where
  "slice_bound n i = (if i < 0 then nat (max 0 (i + int n)) else min (nat i) n)"

definition slice :: "'a list \<Rightarrow> int option \<Rightarrow> int option \<Rightarrow> 'a list" where
  "slice s lo hi =
     (let n = length s;
          a = (case lo of None \<Rightarrow> 0 | Some i \<Rightarrow> slice_bound n i);
          b = (case hi of None \<Rightarrow> n | Some j \<Rightarrow> slice_bound n j)
      in take (b - a) (drop a s))"

section \<open>The number formatter (\<open>_number_formatter.py\<close>)\<close>

datatype PhoneFormat =
  E164 | INTERNATIONAL | NATIONAL | DASHED | DOT | PARENTHESES | SPACES | RFC3966 | LOCAL

record country_rule =
  rule_code :: pystr
  rule_pattern :: "int list"
  rule_national_prefix :: pystr
  rule_trunk_prefix :: pystr

text \<open>The two class-level tables, in the order of their declaration.\<close>

definition INTL_PREFIXES :: "(pystr \<times> pystr) list" where
  "INTL_PREFIXES =
     [(lit ''00'', lit ''+''), (lit ''011'', lit ''+''), (lit ''810'', lit ''+'')]"

definition COUNTRY_RULES :: "(pystr \<times> country_rule) list" where
  "COUNTRY_RULES =
     [(lit ''US'', \<lparr>rule_code = lit ''1'', rule_pattern = [3, 3, 4],
                    rule_national_prefix = lit ''1'', rule_trunk_prefix = lit ''1''\<rparr>),
      (lit ''UK'', \<lparr>rule_code = lit ''44'', rule_pattern = [4, 3, 4],
                    rule_national_prefix = lit ''0'', rule_trunk_prefix = lit ''0''\<rparr>),
      (lit ''FR'', \<lparr>rule_code = lit ''33'', rule_pattern = [3, 3, 3, 3],
                    rule_national_prefix = lit ''0'', rule_trunk_prefix = lit ''0''\<rparr>)]"

text \<open>
  The state of a \<open>NumFormatter\<close>: \<open>self.original\<close>, \<open>self.country_code\<close>,
  \<open>self._digits\<close> and \<open>self._extension\<close>.
\<close>

record NumFormatter =
  self_original :: pystr
  self_country_code :: "pystr option"
  self_digits :: pystr
  self_extension :: pystr

subsection \<open>Extraction of the digits and of the extension\<close>

text \<open>
  \<open>re.sub(r'(?!^\+)[^\d]', '', s)\<close>: every character that is not a digit is deleted,
  but for a \<open>+\<close> at position 0, where the lookahead refuses the match.
\<close>

fun sub_nondigits_keep_leading_plus :: "'x ucd_scheme \<Rightarrow> pystr \<Rightarrow> pystr" where
  "sub_nondigits_keep_leading_plus U [] = []"
| "sub_nondigits_keep_leading_plus U (c # cs) =
     (if c = 43 then c # filter (isdigit U) cs else filter (isdigit U) (c # cs))"

text \<open>
  The loop over \<open>INTL_PREFIXES.items()\<close>: the first prefix the string starts with is
  replaced, and the loop is left.
\<close>

fun replace_intl_prefix :: "(pystr \<times> pystr) list \<Rightarrow> pystr \<Rightarrow> pystr" where
  "replace_intl_prefix [] cleaned = cleaned"
| "replace_intl_prefix ((prefix', replacement) # rest) cleaned =
     (if startswith cleaned prefix'
      then replacement @ slice cleaned (Some (int (length prefix'))) None
      else replace_intl_prefix rest cleaned)"

definition extract_digits :: "'x ucd_scheme \<Rightarrow> pystr \<Rightarrow> pystr" where
  "extract_digits U original =
     replace_intl_prefix INTL_PREFIXES (sub_nondigits_keep_leading_plus U original)"

text \<open>
  \<open>re.search(r'(?:ext|ex|x|#)\s*(\d+)$', s, re.IGNORECASE)\<close>. The letters e, x and t
  have no case variant outside ASCII. At one position the alternatives are tried in
  order; after the marker, \<open>\s*\<close> and \<open>\d+\<close> are greedy and cannot give characters
  back to each other, and \<open>$\<close> holds at the end of the string or before a final
  newline. The search takes the leftmost position that matches.
\<close>

definition same_letter :: "codepoint \<Rightarrow> codepoint \<Rightarrow> bool" where
  \<comment> \<open>an ASCII letter of the pattern against a character, ignoring case\<close>
  "same_letter p c = (c = p \<or> (97 \<le> p \<and> p \<le> 122 \<and> c = p - 32))"

fun match_marker :: "pystr \<Rightarrow> pystr \<Rightarrow> pystr option" where
  "match_marker [] s = Some s"
| "match_marker (p # ps) [] = None"
| "match_marker (p # ps) (c # cs) = (if same_letter p c then match_marker ps cs else None)"

definition match_tail :: "'x ucd_scheme \<Rightarrow> pystr \<Rightarrow> pystr option" where
  \<comment> \<open>\<open>\s*(\d+)$\<close>, giving group 1\<close>
  "match_tail U s =
     (let r = dropWhile (isspace U) s;
          d = takeWhile (isdigit U) r;
          e = dropWhile (isdigit U) r
      in if d \<noteq> [] \<and> (e = [] \<or> e = [10]) then Some d else None)"

fun match_extension_here :: "'x ucd_scheme \<Rightarrow> pystr list \<Rightarrow> pystr \<Rightarrow> pystr option" where
  "match_extension_here U [] s = None"
| "match_extension_here U (m # ms) s =
     (case match_marker m s of
        None \<Rightarrow> match_extension_here U ms s
      | Some r \<Rightarrow>
          (case match_tail U r of
             None \<Rightarrow> match_extension_here U ms s
           | Some d \<Rightarrow> Some d))"

definition extension_markers :: "pystr list" where
  "extension_markers = [lit ''ext'', lit ''ex'', lit ''x'', lit ''#'']"

fun search_extension :: "'x ucd_scheme \<Rightarrow> pystr \<Rightarrow> pystr option" where
  "search_extension U [] = match_extension_here U extension_markers []"
| "search_extension U (c # cs) =
     (case match_extension_here U extension_markers (c # cs) of
        Some d \<Rightarrow> Some d
      | None \<Rightarrow> search_extension U cs)"

definition extract_extension :: "'x ucd_scheme \<Rightarrow> pystr \<Rightarrow> pystr" where
  "extract_extension U original =
     (case search_extension U original of Some d \<Rightarrow> d | None \<Rightarrow> [])"

definition NumFormatter_init :: "'x ucd_scheme \<Rightarrow> pystr \<Rightarrow> pystr option \<Rightarrow> NumFormatter" where
  \<comment> \<open>\<open>__init__(number, country_code)\<close>; an empty \<open>country_code\<close> is falsy\<close>
  "NumFormatter_init U number country_code =
     (let original = strip U number in
      \<lparr>self_original = original,
       self_country_code =
         (case country_code of
            None \<Rightarrow> None
          | Some cc \<Rightarrow> if cc = [] then None else Some (upper U cc)),
       self_digits = extract_digits U original,
       self_extension = extract_extension U original\<rparr>)"

subsection \<open>Grouping\<close>

text \<open>
  The loop of \<open>_group_digits\<close> over the pattern, with the list \<open>result\<close> and the
  position \<open>pos\<close> as its state; \<open>break\<close> leaves it once \<open>pos\<close> has reached the end.
\<close>

fun group_loop :: "pystr \<Rightarrow> int list \<Rightarrow> pystr list \<Rightarrow> int \<Rightarrow> pystr list \<times> int" where
  "group_loop digits [] result pos = (result, pos)"
| "group_loop digits (group' # rest) result pos =
     (if pos \<ge> int (length digits) then (result, pos)
      else group_loop digits rest
             (result @ [slice digits (Some pos) (Some (pos + group'))]) (pos + group'))"

definition pattern_or_default :: "int list option \<Rightarrow> int list" where
  \<comment> \<open>\<open>if not pattern: pattern = [3, 3, 4]\<close>; \<open>None\<close> and \<open>[]\<close> are falsy\<close>
  "pattern_or_default pattern =
     (case pattern of None \<Rightarrow> [3, 3, 4] | Some p \<Rightarrow> if p = [] then [3, 3, 4] else p)"

definition group_list :: "pystr \<Rightarrow> int list option \<Rightarrow> pystr list" where
  \<comment> \<open>the list \<open>result\<close> that \<open>_group_digits\<close> joins\<close>
  "group_list digits pattern =
     (let (result, pos) = group_loop digits (pattern_or_default pattern) [] 0
      in if pos < int (length digits) then result @ [slice digits (Some pos) None]
         else result)"

definition group_digits :: "pystr \<Rightarrow> int list option \<Rightarrow> pystr" where
  "group_digits digits pattern = join (lit ''-'') (group_list digits pattern)"

subsection \<open>The nine styles\<close>

definition ext_suffix :: "NumFormatter \<Rightarrow> pystr" where
  \<comment> \<open>\<open>f" ext{self._extension}" if self._extension else ''\<close>\<close>
  "ext_suffix self =
     (if self_extension self \<noteq> [] then lit '' ext'' @ self_extension self else [])"

definition lookup_rule :: "NumFormatter \<Rightarrow> country_rule option" where
  \<comment> \<open>the two guards \<open>if not self.country_code\<close> and \<open>if not country_rule\<close>:
      \<open>None\<close> where the style gives up on the rule\<close>
  "lookup_rule self =
     (case self_country_code self of
        None \<Rightarrow> None
      | Some cc \<Rightarrow> if cc = [] then None else map_of COUNTRY_RULES cc)"

definition format_e164 :: "NumFormatter \<Rightarrow> pystr \<Rightarrow> pystr" where
  "format_e164 self digits =
     (if startswith digits (lit ''+'') then digits @ ext_suffix self
      else case lookup_rule self of
             None \<Rightarrow> digits
           | Some country_rule \<Rightarrow>
               lit ''+'' @ rule_code country_rule
                 @ lstrip digits (rule_national_prefix country_rule) @ ext_suffix self)"

definition split_e164 :: "pystr \<Rightarrow> pystr \<times> pystr" where
  \<comment> \<open>\<open>country_code = e164[1:3] if len(e164) > 3 else e164[1:]\<close> and
      \<open>national_num = e164[len(country_code)+1:]\<close>\<close>
  "split_e164 e164 =
     (let country_code = (if length e164 > 3 then slice e164 (Some 1) (Some 3)
                          else slice e164 (Some 1) None);
          national_num = slice e164 (Some (int (length country_code) + 1)) None
      in (country_code, national_num))"

definition format_international :: "NumFormatter \<Rightarrow> pystr \<Rightarrow> pystr" where
  "format_international self digits =
     (let e164 = format_e164 self digits in
      if \<not> startswith e164 (lit ''+'') then e164
      else let (country_code, national_num) = split_e164 e164;
               grouped = group_digits national_num None
           in lit ''+'' @ country_code @ lit '' '' @ grouped)"

definition national_number :: "country_rule \<Rightarrow> pystr \<Rightarrow> pystr" where
  \<comment> \<open>\<open>digits.lstrip(country_rule['code']).lstrip(country_rule['national_prefix'])\<close>\<close>
  "national_number country_rule digits =
     lstrip (lstrip digits (rule_code country_rule)) (rule_national_prefix country_rule)"

definition format_national :: "NumFormatter \<Rightarrow> pystr \<Rightarrow> pystr" where
  "format_national self digits =
     (case lookup_rule self of
        None \<Rightarrow> digits
      | Some country_rule \<Rightarrow>
          group_digits (national_number country_rule digits)
            (Some (rule_pattern country_rule)))"

definition format_delimited :: "NumFormatter \<Rightarrow> pystr \<Rightarrow> pystr \<Rightarrow> pystr" where
  "format_delimited self digits delimiter =
     (let e164 = format_e164 self digits in
      if \<not> startswith e164 (lit ''+'') then e164
      else let (country_code, national_num) = split_e164 e164;
               grouped = group_digits national_num None
           in lit ''+'' @ country_code @ delimiter @ replace_char grouped 45 delimiter)"

definition format_parentheses :: "NumFormatter \<Rightarrow> pystr \<Rightarrow> pystr" where
  "format_parentheses self digits =
     (case lookup_rule self of
        None \<Rightarrow> format_international self digits
      | Some country_rule \<Rightarrow>
          (let national_num = national_number country_rule digits;
               area_code_length = (case rule_pattern country_rule of [] \<Rightarrow> 3 | g # _ \<Rightarrow> g)
           in if int (length national_num) \<le> sum_list (rule_pattern country_rule)
              then let area_code = slice national_num None (Some area_code_length);
                       local_num = slice national_num (Some area_code_length) None;
                       grouped_local =
                         group_digits local_num
                           (Some (slice (rule_pattern country_rule) (Some 1) None))
                   in lit ''+'' @ rule_code country_rule @ lit '' ('' @ area_code
                        @ lit '') '' @ grouped_local
              else format_international self digits))"

definition format_spaces :: "NumFormatter \<Rightarrow> pystr \<Rightarrow> pystr" where
  "format_spaces self digits =
     replace_char (format_delimited self digits (lit '' '')) 45 (lit '' '')"

definition format_local :: "NumFormatter \<Rightarrow> pystr \<Rightarrow> pystr" where
  "format_local self digits =
     (case lookup_rule self of
        None \<Rightarrow> digits
      | Some country_rule \<Rightarrow>
          group_digits (national_number country_rule digits)
            (Some (rule_pattern country_rule)))"

text \<open>
  \<open>format(style)\<close>. The final \<open>raise ValueError\<close> of the source is reached only by
  a value that is no member of the enumeration, which the type of \<open>style\<close> excludes.
\<close>

fun format :: "NumFormatter \<Rightarrow> PhoneFormat \<Rightarrow> pystr" where
  "format self E164 = format_e164 self (self_digits self)"
| "format self INTERNATIONAL = format_international self (self_digits self)"
| "format self NATIONAL = format_national self (self_digits self)"
| "format self DASHED = format_delimited self (self_digits self) (lit ''-'')"
| "format self DOT = format_delimited self (self_digits self) (lit ''.'')"
| "format self PARENTHESES = format_parentheses self (self_digits self)"
| "format self SPACES = format_spaces self (self_digits self)"
| "format self RFC3966 = lit ''tel:'' @ format_delimited self (self_digits self) (lit ''-'')"
| "format self LOCAL = format_local self (self_digits self)"

section \<open>The phone number (\<open>_phone_number.py\<close>)\<close>

datatype error = ValueError

text \<open>
  One value of the dictionary \<open>_metadata_cache['countries']\<close>, which
  \<open>_load_metadata\<close> builds with the two keys \<open>name\<close> and \<open>calling_code\<close>. The
  dictionary itself is a list of pairs in insertion order, the order in which
  \<open>countries.items()\<close> runs through it.
\<close>

record country_info =
  info_name :: pystr
  info_calling_code :: pystr

type_synonym countries = "(pystr \<times> country_info) list"

record PhoneNumber =
  self_number :: pystr
  self_region :: "pystr option"

definition normalize_number :: "'x ucd_scheme \<Rightarrow> pystr \<Rightarrow> pystr" where
  \<comment> \<open>\<open>re.sub(r'[^\d+]', '', number)\<close>: the class keeps the digits and \<open>+\<close>\<close>
  "normalize_number U number = filter (\<lambda>c. isdigit U c \<or> c = 43) number"

text \<open>
  The inner loop of \<open>_detect_region\<close> over \<open>countries.items()\<close>, and the outer one
  over \<open>range(1, 5)\<close>; each \<open>return code\<close> ends both.
\<close>

fun match_country :: "countries \<Rightarrow> pystr \<Rightarrow> pystr option" where
  "match_country [] potential_code = None"
| "match_country ((code, info) # rest) potential_code =
     (if replace_char (info_calling_code info) 43 [] = potential_code then Some code
      else match_country rest potential_code)"

fun detect_loop :: "countries \<Rightarrow> pystr \<Rightarrow> nat list \<Rightarrow> pystr option" where
  "detect_loop countries number [] = None"
| "detect_loop countries number (i # rest) =
     (if length number > i
      then (case match_country countries (slice number (Some 1) (Some (int i + 1))) of
              Some code \<Rightarrow> Some code
            | None \<Rightarrow> detect_loop countries number rest)
      else detect_loop countries number rest)"

definition detect_region :: "countries \<Rightarrow> pystr \<Rightarrow> pystr option" where
  "detect_region countries number =
     (if startswith number (lit ''+'') then detect_loop countries number [1, 2, 3, 4]
      else None)"

definition PhoneNumber_init ::
  "'x ucd_scheme \<Rightarrow> countries \<Rightarrow> pystr \<Rightarrow> pystr option \<Rightarrow> error + PhoneNumber" where
  \<comment> \<open>\<open>__init__(number, region)\<close>, with the table of the metadata handler as
      \<open>countries\<close>; the type of \<open>number\<close> leaves only the empty string to refuse\<close>
  "PhoneNumber_init U countries number region =
     (if number = [] then Inl ValueError
      else let normalized = normalize_number U number in
        Inr \<lparr>self_number = normalized,
             self_region =
               (case region of
                  None \<Rightarrow> detect_region countries normalized
                | Some r \<Rightarrow> if r = [] then detect_region countries normalized
                            else Some (upper U r))\<rparr>)"

definition is_valid :: "'x ucd_scheme \<Rightarrow> PhoneNumber \<Rightarrow> bool" where
  "is_valid U self =
     (if self_number self = [] then False
      else let digits_only = filter (isdigit U) (self_number self)
           in 7 \<le> length digits_only \<and> length digits_only \<le> 15)"

section \<open>The cache and the download (\<open>_phone_number.py\<close>)\<close>

text \<open>
  A payload is any Python value: \<open>None\<close>, or a value of the type \<open>'v\<close>. Time is what
  \<open>time.time()\<close> returns: a double, taken as the real number it stands for. The
  difference of two doubles is the double nearest to the exact difference, ties going to
  the even significand (IEEE 754, 53 bits, subnormals below \<open>2 powr - 1022\<close>). A
  difference beyond the largest double is infinite in Python and a larger real here; both
  compare against a bound in the same way.
\<close>

definition round_half_even :: "real \<Rightarrow> int" where
  "round_half_even y =
     (let f = \<lfloor>y\<rfloor> in
      if y - of_int f < 1 / 2 then f
      else if y - of_int f > 1 / 2 then f + 1
      else if even f then f else f + 1)"

definition double_ulp :: "real \<Rightarrow> real" where
  \<comment> \<open>the spacing of the doubles around \<open>x\<close>\<close>
  "double_ulp x = 2 powr (of_int (max \<lfloor>log 2 \<bar>x\<bar>\<rfloor> (- 1022)) - 52)"

definition round_double :: "real \<Rightarrow> real" where
  "round_double x =
     (if x = 0 then 0 else of_int (round_half_even (x / double_ulp x)) * double_ulp x)"

definition float_sub :: "real \<Rightarrow> real \<Rightarrow> real" where
  \<comment> \<open>\<open>a - b\<close> on two floats\<close>
  "float_sub a b = round_double (a - b)"

record 'v CacheEntry =
  entry_data :: "'v option"
  entry_timestamp :: real

text \<open>
  What a cache file holds. \<open>Pickled e\<close> is the bytes
  \<open>gzip.compress(pickle.dumps(e))\<close>, from which \<open>gzip.decompress\<close> and
  \<open>pickle.loads\<close> give \<open>e\<close> back; \<open>Garbage\<close> is any other content: one on which
  decompressing, unpickling or reading the attribute raises. The file system maps a path
  to the content of the file there. \<open>cache_get\<close>, \<open>cache_set\<close> and \<open>is_expired\<close>
  are the three methods for a key that encodes as UTF-8 and a directory in which the
  operating system refuses nothing; \<open>get_or_raise\<close>, \<open>set_or_raise\<close> and
  \<open>is_expired_or_raise\<close> below add the places where the methods raise.
\<close>

datatype 'v content = Pickled "'v CacheEntry" | Garbage

type_synonym 'v files = "pystr \<Rightarrow> 'v content option"

definition CACHE_TTL :: real where
  "CACHE_TTL = 86400"

definition get_cache_path :: "(pystr \<Rightarrow> pystr) \<Rightarrow> pystr \<Rightarrow> pystr \<Rightarrow> pystr" where
  \<comment> \<open>\<open>cache_dir / f"{sha256(key.encode()).hexdigest()}.cache"\<close> for a key that
      encodes, the digest being a parameter\<close>
  "get_cache_path sha256_hex cache_dir key = cache_dir @ lit ''/'' @ sha256_hex key @ lit ''.cache''"

definition cache_get ::
  "(pystr \<Rightarrow> pystr) \<Rightarrow> pystr \<Rightarrow> 'v files \<Rightarrow> pystr \<Rightarrow> 'v option \<times> 'v files" where
  \<comment> \<open>\<open>_CacheManager.get\<close>: the value returned and the file system left\<close>
  "cache_get sha256_hex cache_dir fs key =
     (let cache_path = get_cache_path sha256_hex cache_dir key in
      case fs cache_path of
        None \<Rightarrow> (None, fs)
      | Some (Pickled entry) \<Rightarrow> (entry_data entry, fs)
      | Some Garbage \<Rightarrow> (None, fs(cache_path := None)))"

text \<open>
  How the \<open>try\<close> block of \<open>set\<close> ends: the file is written; or an exception comes
  before the file is opened (pickling, opening) and leaves the file system as it was; or it
  comes after \<open>open(cache_path, 'wb')\<close> has truncated the file.
\<close>

datatype write_outcome = Written | Fails_before_open | Fails_after_open

definition cache_set ::
  "(pystr \<Rightarrow> pystr) \<Rightarrow> pystr \<Rightarrow> 'v files \<Rightarrow> real \<Rightarrow> write_outcome \<Rightarrow> pystr \<Rightarrow> 'v option
     \<Rightarrow> bool \<times> 'v files" where
  \<comment> \<open>\<open>_CacheManager.set\<close>, at the time \<open>now\<close>\<close>
  "cache_set sha256_hex cache_dir fs now outcome key value' =
     (let cache_path = get_cache_path sha256_hex cache_dir key;
          entry = \<lparr>entry_data = value', entry_timestamp = now\<rparr>
      in case outcome of
           Written \<Rightarrow> (True, fs(cache_path \<mapsto> Pickled entry))
         | Fails_before_open \<Rightarrow> (False, fs)
         | Fails_after_open \<Rightarrow> (False, fs(cache_path \<mapsto> Garbage)))"

definition is_expired ::
  "(pystr \<Rightarrow> pystr) \<Rightarrow> pystr \<Rightarrow> 'v files \<Rightarrow> real \<Rightarrow> pystr \<Rightarrow> bool" where
  \<comment> \<open>\<open>_CacheManager.is_expired\<close>, at the time \<open>now\<close>\<close>
  "is_expired sha256_hex cache_dir fs now key =
     (case fs (get_cache_path sha256_hex cache_dir key) of
        None \<Rightarrow> True
      | Some (Pickled entry) \<Rightarrow> float_sub now (entry_timestamp entry) > CACHE_TTL
      | Some Garbage \<Rightarrow> True)"

datatype CachePolicy = CACHE_FIRST | NETWORK_FIRST

text \<open>
  What the network part of \<open>_download_json\<close> gives for a URL: the parsed JSON value,
  or an exception (from building the request, opening the URL, reading, decoding or
  parsing).
\<close>

datatype 'v response = Parsed "'v option" | Raises

text \<open>
  Where the three methods raise. \<open>_get_cache_path\<close> encodes the key as UTF-8, which
  raises \<open>UnicodeEncodeError\<close> on a surrogate code point; \<open>get\<close> and \<open>is_expired\<close>
  call it and \<open>cache_path.exists()\<close> before their \<open>try\<close>, \<open>set\<close> calls it before
  its own, and \<open>get\<close> calls \<open>cache_path.unlink\<close> inside its \<open>except\<close> clause. The
  operating system may refuse the existence test (a directory that cannot be searched) and
  the removal (a directory that cannot be written) with \<open>PermissionError\<close>. Where none of
  these raises, the methods are \<open>cache_get\<close>, \<open>cache_set\<close> and \<open>is_expired\<close> above.
\<close>

datatype exn = UnicodeEncodeError | PermissionError | DownloadError

record os_faults =
  exists_raises :: bool
  unlink_raises :: bool

definition utf8_encodable :: "pystr \<Rightarrow> bool" where
  "utf8_encodable key = list_all (\<lambda>c. c < 55296 \<or> 57343 < c) key"

definition get_or_raise ::
  "os_faults \<Rightarrow> (pystr \<Rightarrow> pystr) \<Rightarrow> pystr \<Rightarrow> 'v files \<Rightarrow> pystr
     \<Rightarrow> (exn + 'v option) \<times> 'v files" where
  \<comment> \<open>\<open>_CacheManager.get\<close>, with the places where it raises\<close>
  "get_or_raise faults sha256_hex cache_dir fs key =
     (if \<not> utf8_encodable key then (Inl UnicodeEncodeError, fs)
      else if exists_raises faults then (Inl PermissionError, fs)
      else if fs (get_cache_path sha256_hex cache_dir key) = Some Garbage
              \<and> unlink_raises faults
      then (Inl PermissionError, fs)
      else (Inr (fst (cache_get sha256_hex cache_dir fs key)),
            snd (cache_get sha256_hex cache_dir fs key)))"

definition is_expired_or_raise ::
  "os_faults \<Rightarrow> (pystr \<Rightarrow> pystr) \<Rightarrow> pystr \<Rightarrow> 'v files \<Rightarrow> real \<Rightarrow> pystr \<Rightarrow> exn + bool" where
  \<comment> \<open>\<open>_CacheManager.is_expired\<close>, with the places where it raises\<close>
  "is_expired_or_raise faults sha256_hex cache_dir fs now key =
     (if \<not> utf8_encodable key then Inl UnicodeEncodeError
      else if exists_raises faults then Inl PermissionError
      else Inr (is_expired sha256_hex cache_dir fs now key))"

definition set_or_raise ::
  "(pystr \<Rightarrow> pystr) \<Rightarrow> pystr \<Rightarrow> 'v files \<Rightarrow> real \<Rightarrow> write_outcome \<Rightarrow> pystr \<Rightarrow> 'v option
     \<Rightarrow> (exn + bool) \<times> 'v files" where
  \<comment> \<open>\<open>_CacheManager.set\<close>, with the place where it raises\<close>
  "set_or_raise sha256_hex cache_dir fs now outcome key value' =
     (if \<not> utf8_encodable key then (Inl UnicodeEncodeError, fs)
      else (Inr (fst (cache_set sha256_hex cache_dir fs now outcome key value')),
            snd (cache_set sha256_hex cache_dir fs now outcome key value')))"

text \<open>
  The \<open>try\<close> block of \<open>_download_json\<close>: \<open>Inl\<close> the exception it raises, \<open>Inr\<close>
  what it returns, and the file system it leaves. \<open>now\<close> is the time at which
  \<open>is_expired\<close> reads the clock, \<open>now'\<close> the time at which \<open>set\<close> does.
\<close>

definition download_try ::
  "os_faults \<Rightarrow> (pystr \<Rightarrow> pystr) \<Rightarrow> pystr \<Rightarrow> CachePolicy \<Rightarrow> (pystr \<Rightarrow> 'v response)
     \<Rightarrow> 'v files \<Rightarrow> real \<Rightarrow> real \<Rightarrow> write_outcome \<Rightarrow> pystr \<Rightarrow> pystr
     \<Rightarrow> (exn + 'v option) \<times> 'v files" where
  "download_try faults sha256_hex cache_dir cache_policy urlopen fs now now' outcome url
       cache_key =
     (case (if cache_policy = CACHE_FIRST
            then get_or_raise faults sha256_hex cache_dir fs cache_key
            else (Inr None, fs)) of
        (Inl e, fs1) \<Rightarrow> (Inl e, fs1)
      | (Inr cached_data, fs1) \<Rightarrow>
          (case (if cache_policy = CACHE_FIRST \<and> cached_data \<noteq> None
                 then is_expired_or_raise faults sha256_hex cache_dir fs1 now cache_key
                 else Inr True) of
             Inl e \<Rightarrow> (Inl e, fs1)
           | Inr expired \<Rightarrow>
               if cache_policy = CACHE_FIRST \<and> cached_data \<noteq> None \<and> \<not> expired
               then (Inr cached_data, fs1)
               else (case urlopen url of
                       Raises \<Rightarrow> (Inl DownloadError, fs1)
                     | Parsed json_data \<Rightarrow>
                         (case set_or_raise sha256_hex cache_dir fs1 now' outcome cache_key
                                 json_data of
                            (Inl e, fs2) \<Rightarrow> (Inl e, fs2)
                          | (Inr ok, fs2) \<Rightarrow> (Inr json_data, fs2)))))"

definition download_json ::
  "os_faults \<Rightarrow> (pystr \<Rightarrow> pystr) \<Rightarrow> pystr \<Rightarrow> CachePolicy \<Rightarrow> (pystr \<Rightarrow> 'v response)
     \<Rightarrow> 'v files \<Rightarrow> real \<Rightarrow> real \<Rightarrow> write_outcome \<Rightarrow> pystr \<Rightarrow> pystr
     \<Rightarrow> (exn + 'v option) \<times> 'v files" where
  \<comment> \<open>\<open>_MetadataHandler._download_json\<close>: the \<open>except\<close> clause calls \<open>get\<close>, and
      what \<open>get\<close> raises there reaches the caller\<close>
  "download_json faults sha256_hex cache_dir cache_policy urlopen fs now now' outcome url
       cache_key =
     (case download_try faults sha256_hex cache_dir cache_policy urlopen fs now now' outcome
             url cache_key of
        (Inr result, fs1) \<Rightarrow> (Inr result, fs1)
      | (Inl e, fs1) \<Rightarrow> get_or_raise faults sha256_hex cache_dir fs1 cache_key)"

section \<open>The first use of the metadata handler by several threads\<close>

text \<open>
  The two lines of \<open>PhoneNumber.__init__\<close> that set the class attribute up:
  \<^verbatim>\<open>if PhoneNumber._metadata_handler is None:\<close> and
  \<^verbatim>\<open>PhoneNumber._metadata_handler = _MetadataHandler()\<close>. No lock is held
  around them, so that another thread may run between the test and the construction (which
  downloads, and waits for the network). A thread is at the test, at the construction, or
  past both; the process holds the class attribute, the number of constructions so far,
  and the number of calls of \<open>_download_json\<close>, two for each construction
  (\<open>_load_metadata\<close>).
\<close>

datatype pc = At_test | At_construction | Past

record process =
  metadata_handler :: "nat option"
  constructions :: nat
  download_calls :: nat
  threads :: "pc list"

definition thread_step :: "process \<Rightarrow> nat \<Rightarrow> process" where
  \<comment> \<open>the thread \<open>i\<close> runs its next step\<close>
  "thread_step p i =
     (if i < length (threads p)
      then (case threads p ! i of
              At_test \<Rightarrow>
                p\<lparr>threads := (threads p)
                     [i := (if metadata_handler p = None then At_construction else Past)]\<rparr>
            | At_construction \<Rightarrow>
                p\<lparr>metadata_handler := Some (constructions p),
                  constructions := constructions p + 1,
                  download_calls := download_calls p + 2,
                  threads := (threads p)[i := Past]\<rparr>
            | Past \<Rightarrow> p)
      else p)"

definition first_use :: "nat \<Rightarrow> process" where
  \<comment> \<open>\<open>n\<close> threads, each about to construct its first \<open>PhoneNumber\<close>\<close>
  "first_use n =
     \<lparr>metadata_handler = None, constructions = 0, download_calls = 0,
      threads = replicate n At_test\<rparr>"

definition run :: "nat list \<Rightarrow> process \<Rightarrow> process" where
  \<comment> \<open>the schedule names the thread that runs each step\<close>
  "run schedule p = foldl thread_step p schedule"

text \<open>
  A Unicode database that knows nothing beyond ASCII, for the evaluation of the
  definitions on ASCII inputs, where the database is not consulted.
\<close>

definition ascii_ucd :: ucd where
  "ascii_ucd = \<lparr>ucd_decimal = (\<lambda>c. False), ucd_space = (\<lambda>c. False), ucd_upper = (\<lambda>c. [c])\<rparr>"

section \<open>The resolution of the region, as the specification words it\<close>

text \<open>
  The candidate prefixes are the first 1, 2, 3 and 4 characters after the \<open>+\<close>, those
  that exist, shortest first; for each, the regions of the table are taken in its order.
  The first pair of a candidate and a region whose stored calling code, without its
  \<open>+\<close>, equals the candidate gives the region.
\<close>

definition resolve_spec :: "countries \<Rightarrow> pystr \<Rightarrow> pystr option" where
  "resolve_spec table normalized =
     (if normalized \<noteq> [] \<and> hd normalized = 43
      then (case [region. i \<leftarrow> [1, 2, 3, 4], i \<le> length (tl normalized),
                          (region, info) \<leftarrow> table,
                          filter (\<lambda>c. c \<noteq> 43) (info_calling_code info) = take i (tl normalized)]
            of [] \<Rightarrow> None | region # _ \<Rightarrow> Some region)
      else None)"

section \<open>The grouping, as the specification words it\<close>

text \<open>
  The characters are consumed from the left in chunks of the given sizes, as long as some
  remain; what remains after the last size is one final group.
\<close>

fun chunks :: "nat list \<Rightarrow> 'a list \<Rightarrow> 'a list list" where
  "chunks sizes [] = []"
| "chunks [] s = [s]"
| "chunks (n # sizes) s = take n s # chunks sizes (drop n s)"

section \<open>Properties of the grouping\<close>

lemma slice_from_to:
  assumes "0 \<le> a" "a \<le> b"
  shows "slice s (Some a) (Some b) = take (nat b - nat a) (drop (nat a) s)"
  using assms by (auto simp: slice_def slice_bound_def Let_def min_def take_drop)

lemma slice_from:
  assumes "0 \<le> a"
  shows "slice s (Some a) None = drop (nat a) s"
  using assms by (auto simp: slice_def slice_bound_def Let_def min_def)

lemma filter_join_sep:
  "filter (\<lambda>c. c \<noteq> d) (join [d] xs) = filter (\<lambda>c. c \<noteq> d) (concat xs)"
  by (induction "[d]" xs rule: join.induct) simp_all

lemma group_loop_full:
  assumes "\<forall>g\<in>set pattern. 0 < g" "0 \<le> pos" "pos + sum_list pattern < int (length digits)"
  shows "\<exists>r. group_loop digits pattern result pos = (result @ r, pos + sum_list pattern)
             \<and> map length r = map nat pattern"
  using assms
proof (induction pattern arbitrary: result pos)
  case Nil
  then show ?case by simp
next
  case (Cons g rest)
  from Cons.prems(1) have g: "0 < g" and rest: "\<forall>g\<in>set rest. 0 < g" by simp_all
  have nonneg: "0 \<le> sum_list rest" using rest by (simp add: sum_list_nonneg less_imp_le)
  have lt: "pos < int (length digits)" and lt2: "pos + g < int (length digits)"
    using Cons.prems(3) g nonneg by simp_all
  let ?chunk = "slice digits (Some pos) (Some (pos + g))"
  have len: "length ?chunk = nat g"
    using lt lt2 g Cons.prems(2) by (simp add: slice_from_to)
  have "0 \<le> pos + g" using g Cons.prems(2) by simp
  moreover have "pos + g + sum_list rest < int (length digits)"
    using Cons.prems(3) by (simp add: add.assoc)
  ultimately obtain r where r: "group_loop digits rest (result @ [?chunk]) (pos + g)
        = ((result @ [?chunk]) @ r, pos + g + sum_list rest)" "map length r = map nat rest"
    using Cons.IH [OF rest, of "pos + g" "result @ [?chunk]"] by blast
  have "group_loop digits (g # rest) result pos
          = (result @ (?chunk # r), pos + sum_list (g # rest))"
    using lt r(1) by (simp add: add.assoc)
  moreover have "map length (?chunk # r) = map nat (g # rest)"
    using len r(2) by simp
  ultimately show ?case by blast
qed

lemma group_list_trailing:
  assumes "\<forall>g\<in>set (pattern_or_default pattern). 0 < g"
    and "sum_list (pattern_or_default pattern) < int (length digits)"
  shows "map length (butlast (group_list digits pattern)) = map nat (pattern_or_default pattern)
       \<and> last (group_list digits pattern)
           = drop (nat (sum_list (pattern_or_default pattern))) digits"
proof -
  obtain r where r:
    "group_loop digits (pattern_or_default pattern) [] 0
       = ([] @ r, 0 + sum_list (pattern_or_default pattern))"
    "map length r = map nat (pattern_or_default pattern)"
    using group_loop_full [OF assms(1), of 0 digits "[]"] assms(2) by auto
  have nonneg: "0 \<le> sum_list (pattern_or_default pattern)"
    using assms(1) by (simp add: sum_list_nonneg less_imp_le)
  have "group_list digits pattern
          = r @ [drop (nat (sum_list (pattern_or_default pattern))) digits]"
    using r(1) assms(2) nonneg by (simp add: group_list_def slice_from)
  then show ?thesis using r(2) by simp
qed

lemma chunks_concat: "concat (chunks sizes s) = s"
  by (induction sizes s rule: chunks.induct) simp_all

lemma group_loop_chunks:
  assumes "\<forall>g\<in>set q. 0 < g" "0 \<le> pos"
    and "group_loop digits q result pos = (result', pos')"
  shows "(if pos' < int (length digits) then result' @ [slice digits (Some pos') None]
          else result')
         = result @ chunks (map nat q) (drop (nat pos) digits)"
  using assms
proof (induction q arbitrary: result pos)
  case Nil
  then have eq: "result' = result" "pos' = pos" by simp_all
  show ?case
  proof (cases "pos < int (length digits)")
    case True
    then have "drop (nat pos) digits \<noteq> []" using Nil.prems(2) by simp
    then have "chunks [] (drop (nat pos) digits) = [drop (nat pos) digits]"
      by (cases "drop (nat pos) digits") simp_all
    then show ?thesis using True eq Nil.prems(2) by (simp add: slice_from)
  next
    case False
    then have "drop (nat pos) digits = []" by simp
    then show ?thesis using False eq by simp
  qed
next
  case (Cons g rest)
  from Cons.prems(1) have g: "0 < g" and rest: "\<forall>g\<in>set rest. 0 < g" by simp_all
  show ?case
  proof (cases "pos \<ge> int (length digits)")
    case True
    then have "drop (nat pos) digits = []" by simp
    moreover have "result' = result" "pos' = pos" using Cons.prems(3) True by simp_all
    ultimately show ?thesis using True by simp
  next
    case False
    let ?s = "drop (nat pos) digits"
    have ne: "?s \<noteq> []" using False Cons.prems(2) by simp
    have sl: "slice digits (Some pos) (Some (pos + g)) = take (nat g) ?s"
    proof -
      have "nat (pos + g) - nat pos = nat g" using g Cons.prems(2) by simp
      then show ?thesis using g Cons.prems(2) by (simp add: slice_from_to)
    qed
    have dr: "drop (nat g) ?s = drop (nat (pos + g)) digits"
      using g Cons.prems(2) by (simp add: nat_add_distrib add.commute)
    have ch: "chunks (map nat (g # rest)) ?s = take (nat g) ?s # chunks (map nat rest) (drop (nat g) ?s)"
      using ne by (cases ?s) simp_all
    have run: "group_loop digits rest (result @ [take (nat g) ?s]) (pos + g) = (result', pos')"
      using Cons.prems(3) False sl by simp
    have "0 \<le> pos + g" using g Cons.prems(2) by simp
    from Cons.IH [OF rest this run] show ?thesis
      unfolding ch dr by simp
  qed
qed

lemma group_list_chunks:
  assumes "\<forall>g\<in>set (pattern_or_default pattern). 0 < g"
  shows "group_list digits pattern = chunks (map nat (pattern_or_default pattern)) digits"
proof -
  obtain result pos where run:
    "group_loop digits (pattern_or_default pattern) [] 0 = (result, pos)"
    by (cases "group_loop digits (pattern_or_default pattern) [] 0") blast
  from group_loop_chunks [OF assms _ run] show ?thesis
    using run by (simp add: group_list_def)
qed

lemma caller_pattern:
  assumes "pattern = Some q \<and> q \<noteq> [] \<or> (pattern = None \<or> pattern = Some []) \<and> q = [3, 3, 4]"
  shows "pattern_or_default pattern = q"
  using assms by (auto simp: pattern_or_default_def)

text \<open>
  Claim C9. For every input string and every sequence \<open>q\<close> of positive group lengths
  (the pattern the caller gives, or 3, 3, 4 when the caller gives none or an empty one),
  the groups of \<open>_group_digits\<close> are the chunks of the input of the sizes \<open>q\<close>, taken
  from the left, and the output is these groups joined by \<open>-\<close>. The groups concatenated
  are the input: nothing is dropped, duplicated or reordered; removing every \<open>-\<close> from
  the output gives the input without its own \<open>-\<close>, which is the input when it holds
  none. When the input is longer than the sum of \<open>q\<close>, the groups have the lengths
  \<open>q\<close> and one more group holds all the characters beyond them.
\<close>

theorem group_digits_keeps_input:
  assumes "\<forall>g\<in>set q. 0 < g"
    and "pattern = Some q \<and> q \<noteq> [] \<or> (pattern = None \<or> pattern = Some []) \<and> q = [3, 3, 4]"
  shows "group_list digits pattern = chunks (map nat q) digits
       \<and> group_digits digits pattern = join (lit ''-'') (chunks (map nat q) digits)
       \<and> concat (group_list digits pattern) = digits
       \<and> filter (\<lambda>c. c \<noteq> 45) (group_digits digits pattern) = filter (\<lambda>c. c \<noteq> 45) digits
       \<and> (45 \<notin> set digits \<longrightarrow>
            filter (\<lambda>c. c \<noteq> 45) (group_digits digits pattern) = digits)
       \<and> (sum_list q < int (length digits) \<longrightarrow>
            map length (butlast (group_list digits pattern)) = map nat q
            \<and> last (group_list digits pattern) = drop (nat (sum_list q)) digits)"
proof -
  have q: "pattern_or_default pattern = q" using assms(2) by (rule caller_pattern)
  have pos: "\<forall>g\<in>set (pattern_or_default pattern). 0 < g" using assms(1) q by simp
  have a: "group_list digits pattern = chunks (map nat q) digits"
    using group_list_chunks [OF pos] q by simp
  have b: "group_digits digits pattern = join (lit ''-'') (chunks (map nat q) digits)"
    using a by (simp add: group_digits_def)
  have c: "concat (group_list digits pattern) = digits"
    unfolding a by (rule chunks_concat)
  have dash: "lit ''-'' = [45]" by (simp add: lit_def)
  have d: "filter (\<lambda>c. c \<noteq> 45) (group_digits digits pattern) = filter (\<lambda>c. c \<noteq> 45) digits"
  proof -
    have "filter (\<lambda>c. c \<noteq> 45) (group_digits digits pattern)
            = filter (\<lambda>c. c \<noteq> 45) (concat (group_list digits pattern))"
      unfolding group_digits_def dash by (rule filter_join_sep)
    then show ?thesis using c by simp
  qed
  have e: "filter (\<lambda>c. c \<noteq> 45) (group_digits digits pattern) = digits"
    if "45 \<notin> set digits"
    using that d by (auto simp: filter_id_conv)
  have f: "map length (butlast (group_list digits pattern)) = map nat q
            \<and> last (group_list digits pattern) = drop (nat (sum_list q)) digits"
    if "sum_list q < int (length digits)"
    using group_list_trailing [OF pos, of digits] that q by simp
  from a b c d e f show ?thesis by blast
qed

theorem group_digits_keeps_input_witness:
  "group_digits (lit ''1234567'') (Some [2, 1]) = lit ''12-3-4567''
   \<and> group_list (lit ''1234567'') (Some [2, 1]) = [lit ''12'', lit ''3'', lit ''4567'']
   \<and> last (group_list (lit ''1234567'') (Some [2, 1])) = lit ''4567''
   \<and> group_digits (lit ''1234567890123'') None = lit ''123-456-7890-123''
   \<and> concat (group_list (lit ''12-34'') (Some [])) = lit ''12-34''"
proof -
  have h1: "\<forall>g\<in>set [2, 1 :: int]. 0 < g" by simp
  have p1: "Some [2, 1 :: int] = Some [2, 1] \<and> [2, 1 :: int] \<noteq> []
      \<or> (Some [2, 1 :: int] = None \<or> Some [2, 1 :: int] = Some []) \<and> [2, 1 :: int] = [3, 3, 4]"
    by simp
  have h2: "\<forall>g\<in>set [3, 3, 4 :: int]. 0 < g" by simp
  have p2: "None = Some [3, 3, 4 :: int] \<and> [3, 3, 4 :: int] \<noteq> []
      \<or> (None = (None :: int list option) \<or> None = Some ([] :: int list))
          \<and> [3, 3, 4 :: int] = [3, 3, 4]"
    by simp
  have p3: "Some [] = Some [3, 3, 4 :: int] \<and> [3, 3, 4 :: int] \<noteq> []
      \<or> (Some [] = (None :: int list option) \<or> Some [] = Some ([] :: int list))
          \<and> [3, 3, 4 :: int] = [3, 3, 4]"
    by simp
  note t1 = group_digits_keeps_input [OF h1 p1, of "lit ''1234567''"]
  note t2 = group_digits_keeps_input [OF h2 p2, of "lit ''1234567890123''"]
  note t3 = group_digits_keeps_input [OF h2 p3, of "lit ''12-34''"]
  have c1: "chunks (map nat [2, 1]) (lit ''1234567'') = [lit ''12'', lit ''3'', lit ''4567'']"
    by (simp add: lit_def)
  have c2: "chunks (map nat [3, 3, 4]) (lit ''1234567890123'')
      = [lit ''123'', lit ''456'', lit ''7890'', lit ''123'']"
    by (simp add: lit_def)
  have a: "group_list (lit ''1234567'') (Some [2, 1]) = [lit ''12'', lit ''3'', lit ''4567'']"
    using t1 c1 by simp
  have b: "group_digits (lit ''1234567'') (Some [2, 1]) = lit ''12-3-4567''"
    using t1 c1 by (simp add: lit_def)
  have c: "last (group_list (lit ''1234567'') (Some [2, 1])) = lit ''4567''"
    using a by simp
  have d: "group_digits (lit ''1234567890123'') None = lit ''123-456-7890-123''"
    using t2 c2 by (simp add: lit_def)
  have e: "concat (group_list (lit ''12-34'') (Some [])) = lit ''12-34''"
    using t3 by blast
  from a b c d e show ?thesis by blast
qed

section \<open>Properties of the formatter\<close>

lemmas formatter_eval =
  NumFormatter_init_def lit_def strip_def isspace_def isdigit_def upper_def upper_char_def
  extract_digits_def INTL_PREFIXES_def startswith_def slice_def slice_bound_def
  extract_extension_def extension_markers_def same_letter_def match_tail_def

lemma no_rule_for_empty: "map_of COUNTRY_RULES [] = None"
  by (simp add: COUNTRY_RULES_def lit_def)

text \<open>
  Claim C1. For every \<open>NumFormatter\<close> built from a raw number and an optional region,
  with \<open>d\<close> the extracted digit string and \<open>x\<close> the extracted extension,
  \<open>format(E164)\<close> is: \<open>d\<close>, followed by \<open>' ext' + x\<close> when \<open>x\<close> is not empty, if
  \<open>d\<close> starts with \<open>+\<close>; else \<open>d\<close> unchanged, if no region was given or the
  (uppercased) region has no entry in \<open>COUNTRY_RULES\<close>; else \<open>+\<close>, the rule's calling
  code, and \<open>d\<close> without its leading characters that occur in the rule's
  \<open>national_prefix\<close> (each such character is removed, as many as there are: this is no
  match of the prefix as a string), followed by the same extension suffix.
\<close>

theorem format_e164_branches:
  "let f = NumFormatter_init U number region;
       d = self_digits f;
       x = self_extension f;
       ext = (if x = [] then [] else lit '' ext'' @ x)
   in d = extract_digits U (strip U number)
      \<and> x = extract_extension U (strip U number)
      \<and> (startswith d (lit ''+'') \<longrightarrow> format f E164 = d @ ext)
      \<and> (\<not> startswith d (lit ''+'')
           \<and> (region = None
                \<or> (\<exists>r. region = Some r \<and> map_of COUNTRY_RULES (upper U r) = None))
          \<longrightarrow> format f E164 = d)
      \<and> (\<forall>r rule. \<not> startswith d (lit ''+'') \<and> region = Some r
             \<and> map_of COUNTRY_RULES (upper U r) = Some rule
          \<longrightarrow> format f E164
                = lit ''+'' @ rule_code rule
                  @ dropWhile (\<lambda>c. c \<in> set (rule_national_prefix rule)) d @ ext)"
proof (cases region)
  case None
  then show ?thesis
    by (simp add: NumFormatter_init_def Let_def format_e164_def lookup_rule_def ext_suffix_def)
next
  case (Some r)
  show ?thesis
  proof (cases "r = []")
    case True
    with Some show ?thesis
      by (simp add: NumFormatter_init_def Let_def format_e164_def lookup_rule_def
          ext_suffix_def upper_def no_rule_for_empty)
  next
    case False
    with Some show ?thesis
      by (auto simp: NumFormatter_init_def Let_def format_e164_def lookup_rule_def
          ext_suffix_def lstrip_def no_rule_for_empty)
  qed
qed

theorem format_e164_branches_witness:
  "format (NumFormatter_init ascii_ucd (lit ''+1 650-555-1234 x12'') (Some (lit ''US''))) E164
     = lit ''+1650555123412 ext12''
   \<and> format (NumFormatter_init ascii_ucd (lit ''555-1234'') None) E164 = lit ''5551234''
   \<and> format (NumFormatter_init ascii_ucd (lit ''555-1234 ext 9'') (Some (lit ''DZ''))) E164
       = lit ''55512349''
   \<and> format (NumFormatter_init ascii_ucd (lit ''11 555 1234'') (Some (lit ''us''))) E164
       = lit ''+15551234''
   \<and> format (NumFormatter_init ascii_ucd (lit ''0142685300 ext 7'') (Some (lit ''FR''))) E164
       = lit ''+331426853007 ext7''"
proof -
  have a: "format (NumFormatter_init ascii_ucd (lit ''+1 650-555-1234 x12'') (Some (lit ''US'')))
      E164 = lit ''+1650555123412 ext12''"
  proof -
    have d: "self_digits (NumFormatter_init ascii_ucd (lit ''+1 650-555-1234 x12'')
        (Some (lit ''US''))) = lit ''+1650555123412''"
      and x: "self_extension (NumFormatter_init ascii_ucd (lit ''+1 650-555-1234 x12'')
        (Some (lit ''US''))) = lit ''12''"
      by (simp_all add: formatter_eval)
    show ?thesis
      using format_e164_branches [of ascii_ucd "lit ''+1 650-555-1234 x12''" "Some (lit ''US'')"]
      unfolding Let_def d x by (simp add: startswith_def lit_def)
  qed
  have b: "format (NumFormatter_init ascii_ucd (lit ''555-1234'') None) E164 = lit ''5551234''"
  proof -
    have d: "self_digits (NumFormatter_init ascii_ucd (lit ''555-1234'') None) = lit ''5551234''"
      by (simp add: formatter_eval)
    show ?thesis
      using format_e164_branches [of ascii_ucd "lit ''555-1234''" None]
      unfolding Let_def d by (simp add: startswith_def lit_def)
  qed
  have c: "format (NumFormatter_init ascii_ucd (lit ''555-1234 ext 9'') (Some (lit ''DZ''))) E164
       = lit ''55512349''"
  proof -
    have d: "self_digits (NumFormatter_init ascii_ucd (lit ''555-1234 ext 9'')
        (Some (lit ''DZ''))) = lit ''55512349''"
      by (simp add: formatter_eval)
    have r: "map_of COUNTRY_RULES (upper ascii_ucd (lit ''DZ'')) = None"
      by (simp add: COUNTRY_RULES_def upper_def upper_char_def lit_def)
    show ?thesis
      using format_e164_branches [of ascii_ucd "lit ''555-1234 ext 9''" "Some (lit ''DZ'')"] r
      unfolding Let_def d by (simp add: startswith_def lit_def)
  qed
  have e: "format (NumFormatter_init ascii_ucd (lit ''11 555 1234'') (Some (lit ''us''))) E164
       = lit ''+15551234''"
  proof -
    have d: "self_digits (NumFormatter_init ascii_ucd (lit ''11 555 1234'')
        (Some (lit ''us''))) = lit ''115551234''"
      and x: "self_extension (NumFormatter_init ascii_ucd (lit ''11 555 1234'')
        (Some (lit ''us''))) = []"
      by (simp_all add: formatter_eval)
    have r: "map_of COUNTRY_RULES (upper ascii_ucd (lit ''us'')) = Some (snd (COUNTRY_RULES ! 0))"
      by (simp add: COUNTRY_RULES_def upper_def upper_char_def lit_def)
    show ?thesis
      using format_e164_branches [of ascii_ucd "lit ''11 555 1234''" "Some (lit ''us'')"] r
      unfolding Let_def d x by (simp add: startswith_def lit_def COUNTRY_RULES_def)
  qed
  have g: "format (NumFormatter_init ascii_ucd (lit ''0142685300 ext 7'') (Some (lit ''FR'')))
      E164 = lit ''+331426853007 ext7''"
  proof -
    have d: "self_digits (NumFormatter_init ascii_ucd (lit ''0142685300 ext 7'')
        (Some (lit ''FR''))) = lit ''01426853007''"
      and x: "self_extension (NumFormatter_init ascii_ucd (lit ''0142685300 ext 7'')
        (Some (lit ''FR''))) = lit ''7''"
      by (simp_all add: formatter_eval)
    have r: "map_of COUNTRY_RULES (upper ascii_ucd (lit ''FR'')) = Some (snd (COUNTRY_RULES ! 2))"
      by (simp add: COUNTRY_RULES_def upper_def upper_char_def lit_def)
    show ?thesis
      using format_e164_branches [of ascii_ucd "lit ''0142685300 ext 7''" "Some (lit ''FR'')"] r
      unfolding Let_def d x by (simp add: startswith_def lit_def COUNTRY_RULES_def)
  qed
  from a b c e g show ?thesis by blast
qed

text \<open>
  Claim C8. \<open>NumFormatter("011 33 1 42 68 53 00", "FR").format(DASHED)\<close>: the cleaned
  string \<open>01133142685300\<close> does not start with the first prefix of the table
  (\<open>00\<close>) and starts with the second (\<open>011\<close>), which is replaced by \<open>+\<close>; the
  result is \<open>+33-142-685-300\<close>, a dashed string that begins with \<open>+33-\<close>.
\<close>

theorem format_dashed_example:
  "extract_digits U (strip U (lit ''011 33 1 42 68 53 00'')) = lit ''+33142685300''
   \<and> \<not> startswith (lit ''01133142685300'') (fst (INTL_PREFIXES ! 0))
   \<and> startswith (lit ''01133142685300'') (fst (INTL_PREFIXES ! 1))
   \<and> format (NumFormatter_init U (lit ''011 33 1 42 68 53 00'') (Some (lit ''FR''))) DASHED
       = lit ''+33-142-685-300''
   \<and> startswith
        (format (NumFormatter_init U (lit ''011 33 1 42 68 53 00'') (Some (lit ''FR''))) DASHED)
        (lit ''+33-'')"
proof -
  have d: "extract_digits U (strip U (lit ''011 33 1 42 68 53 00'')) = lit ''+33142685300''"
    by (simp add: formatter_eval)
  have p: "\<not> startswith (lit ''01133142685300'') (fst (INTL_PREFIXES ! 0))
      \<and> startswith (lit ''01133142685300'') (fst (INTL_PREFIXES ! 1))"
    by (simp add: INTL_PREFIXES_def startswith_def lit_def)
  have f: "format (NumFormatter_init U (lit ''011 33 1 42 68 53 00'') (Some (lit ''FR''))) DASHED
       = lit ''+33-142-685-300''"
    by (simp add: formatter_eval format_delimited_def format_e164_def ext_suffix_def
        split_e164_def group_digits_def group_list_def pattern_or_default_def replace_char_def)
  have s: "startswith (lit ''+33-142-685-300'') (lit ''+33-'')"
    by (simp add: startswith_def lit_def)
  from d p f s show ?thesis by simp
qed

section \<open>Properties of the phone number\<close>

lemma replace_char_delete: "replace_char s c [] = filter (\<lambda>x. x \<noteq> c) s"
  by (induction s) (simp_all add: replace_char_def)

lemma slice_after_first: "slice s (Some 1) (Some (int i + 1)) = take i (tl s)"
proof (cases s)
  case Nil
  then show ?thesis by (simp add: slice_def slice_bound_def)
next
  case (Cons c cs)
  have "nat (int i + 1) = Suc i" by simp
  then show ?thesis
    using Cons by (simp add: slice_def slice_bound_def Let_def min_def)
qed

lemma match_country_first:
  "match_country countries pc =
     (case [code. (code, info) \<leftarrow> countries,
                  filter (\<lambda>c. c \<noteq> 43) (info_calling_code info) = pc]
      of [] \<Rightarrow> None | code # _ \<Rightarrow> Some code)"
  by (induction countries) (auto simp: replace_char_delete)

lemma detect_loop_first:
  assumes "number \<noteq> []"
  shows "detect_loop countries number range' =
     (case [code. i \<leftarrow> range', i \<le> length (tl number), (code, info) \<leftarrow> countries,
                  filter (\<lambda>c. c \<noteq> 43) (info_calling_code info) = take i (tl number)]
      of [] \<Rightarrow> None | code # _ \<Rightarrow> Some code)"
proof -
  define F where "F = (\<lambda>i. [code. (code, info) \<leftarrow> countries,
      filter (\<lambda>c. c \<noteq> 43) (info_calling_code info) = take i (tl number)])"
  define G where "G = (\<lambda>r. concat (map (\<lambda>i. if i \<le> length (tl number) then F i else []) r))"
  have "detect_loop countries number range' = (case G range' of [] \<Rightarrow> None | code # _ \<Rightarrow> Some code)"
  proof (induction range')
    case Nil
    show ?case by (simp add: G_def)
  next
    case (Cons i rest)
    have len: "(i < length number) = (i \<le> length (tl number))"
      using assms by (cases number) auto
    have G_cons: "G (i # rest) = (if i \<le> length (tl number) then F i else []) @ G rest"
      by (simp add: G_def)
    have mc: "match_country countries (slice number (Some 1) (Some (int i + 1)))
        = (case F i of [] \<Rightarrow> None | code # _ \<Rightarrow> Some code)"
      by (simp only: match_country_first slice_after_first F_def)
    show ?case
    proof (cases "i \<le> length (tl number)")
      case True
      then have "detect_loop countries number (i # rest)
          = (case match_country countries (slice number (Some 1) (Some (int i + 1))) of
               Some code \<Rightarrow> Some code | None \<Rightarrow> detect_loop countries number rest)"
        using len by simp
      also have "\<dots> = (case F i @ G rest of [] \<Rightarrow> None | code # _ \<Rightarrow> Some code)"
        unfolding mc Cons.IH by (cases "F i") simp_all
      finally show ?thesis using True by (simp only: G_cons if_True)
    next
      case False
      then have "detect_loop countries number (i # rest) = detect_loop countries number rest"
        using len by simp
      then show ?thesis using False Cons.IH by (simp only: G_cons if_False append_Nil)
    qed
  qed
  then show ?thesis unfolding G_def F_def by simp
qed

lemma startswith_plus: "startswith number (lit ''+'') = (number \<noteq> [] \<and> hd number = 43)"
  by (cases number) (auto simp: startswith_def lit_def)

lemma detect_guarded_first:
  "(if number \<noteq> [] \<and> hd number = 43 then detect_loop countries number range' else None) =
     (if number \<noteq> [] \<and> hd number = 43
      then (case [region. i \<leftarrow> range', i \<le> length (tl number),
                          (region, info) \<leftarrow> countries,
                          filter (\<lambda>c. c \<noteq> 43) (info_calling_code info) = take i (tl number)]
            of [] \<Rightarrow> None | region # _ \<Rightarrow> Some region)
      else None)"
  by (simp add: detect_loop_first)

text \<open>
  Claim C4. \<open>_detect_region\<close> is the resolution the specification words: the
  candidate prefixes of length 1 to 4 are tried in increasing order, and the first region
  whose stored calling code, its \<open>+\<close> removed, equals the candidate is returned. With a
  region A of calling code \<open>1\<close> and a region B of calling code \<open>14\<close>, in either
  order in the table, \<open>+14255551234\<close> resolves to A.
\<close>

theorem detect_region_shortest_prefix_first:
  "detect_region countries number = resolve_spec countries number
   \<and> detect_region
        [(lit ''A'', \<lparr>info_name = name_a, info_calling_code = lit ''1''\<rparr>),
         (lit ''B'', \<lparr>info_name = name_b, info_calling_code = lit ''14''\<rparr>)]
        (lit ''+14255551234'') = Some (lit ''A'')
   \<and> detect_region
        [(lit ''B'', \<lparr>info_name = name_b, info_calling_code = lit ''14''\<rparr>),
         (lit ''A'', \<lparr>info_name = name_a, info_calling_code = lit ''1''\<rparr>)]
        (lit ''+14255551234'') = Some (lit ''A'')"
proof -
  have "detect_region countries number = resolve_spec countries number"
    unfolding detect_region_def resolve_spec_def startswith_plus
    by (rule detect_guarded_first)
  moreover have "detect_region
        [(lit ''A'', \<lparr>info_name = name_a, info_calling_code = lit ''1''\<rparr>),
         (lit ''B'', \<lparr>info_name = name_b, info_calling_code = lit ''14''\<rparr>)]
        (lit ''+14255551234'') = Some (lit ''A'')"
    by (simp add: detect_region_def startswith_def lit_def slice_def slice_bound_def
        replace_char_def)
  moreover have "detect_region
        [(lit ''B'', \<lparr>info_name = name_b, info_calling_code = lit ''14''\<rparr>),
         (lit ''A'', \<lparr>info_name = name_a, info_calling_code = lit ''1''\<rparr>)]
        (lit ''+14255551234'') = Some (lit ''A'')"
    by (simp add: detect_region_def startswith_def lit_def slice_def slice_bound_def
        replace_char_def)
  ultimately show ?thesis by blast
qed

theorem detect_region_shortest_prefix_first_witness:
  "resolve_spec
     [(lit ''FR'', \<lparr>info_name = lit ''France'', info_calling_code = lit ''+33''\<rparr>),
      (lit ''DZ'', \<lparr>info_name = lit ''Algeria'', info_calling_code = lit ''+213''\<rparr>),
      (lit ''ZZ'', \<lparr>info_name = lit ''Nowhere'', info_calling_code = lit ''+2''\<rparr>)]
     (lit ''+213555123456'') = Some (lit ''ZZ'')
   \<and> resolve_spec
     [(lit ''FR'', \<lparr>info_name = lit ''France'', info_calling_code = lit ''+33''\<rparr>)]
     (lit ''0033142685300'') = None"
proof -
  have a: "detect_region
     [(lit ''FR'', \<lparr>info_name = lit ''France'', info_calling_code = lit ''+33''\<rparr>),
      (lit ''DZ'', \<lparr>info_name = lit ''Algeria'', info_calling_code = lit ''+213''\<rparr>),
      (lit ''ZZ'', \<lparr>info_name = lit ''Nowhere'', info_calling_code = lit ''+2''\<rparr>)]
     (lit ''+213555123456'') = Some (lit ''ZZ'')"
    by (simp add: detect_region_def startswith_def lit_def slice_def slice_bound_def
        replace_char_def)
  have b: "detect_region
     [(lit ''FR'', \<lparr>info_name = lit ''France'', info_calling_code = lit ''+33''\<rparr>)]
     (lit ''0033142685300'') = None"
    by (simp add: detect_region_def startswith_def lit_def)
  from a b show ?thesis
    unfolding detect_region_shortest_prefix_first [THEN conjunct1] by blast
qed

lemma count_list_filter_keep:
  "P c \<Longrightarrow> count_list (filter P s) c = count_list s c"
  by (induction s) auto

text \<open>
  Claim C2, as stated, fails: \<open>_normalize_number\<close> keeps every \<open>+\<close> of its input,
  not only a leading one. From \<open>1+2+\<close> it returns \<open>1+2+\<close>, where the first character
  is no \<open>+\<close>, the second is, and there are two of them.
\<close>

theorem normalize_number_keeps_every_plus:
  "normalize_number ascii_ucd (lit ''1+2+'') = lit ''1+2+''
   \<and> hd (normalize_number ascii_ucd (lit ''1+2+'')) \<noteq> 43
   \<and> normalize_number ascii_ucd (lit ''1+2+'') ! 1 = 43
   \<and> count_list (normalize_number ascii_ucd (lit ''1+2+'')) 43 = 2"
  by (simp add: normalize_number_def lit_def isdigit_def)

text \<open>
  Claim C2, amended. The normalized number holds only digits (the characters of the class
  \<open>\d\<close>) and \<open>+\<close>; it is a subsequence of the raw input, so that normalization only
  deletes characters; it keeps every digit of the raw input, in order, and every
  \<open>+\<close>, wherever it stands. The number a \<open>PhoneNumber\<close> stores is this normalized
  number.
\<close>

theorem normalize_number_digits_and_plus:
  "(\<forall>c\<in>set (normalize_number U raw). isdigit U c \<or> c = 43)
   \<and> subseq (normalize_number U raw) raw
   \<and> filter (isdigit U) (normalize_number U raw) = filter (isdigit U) raw
   \<and> count_list (normalize_number U raw) 43 = count_list raw 43
   \<and> (\<forall>number region self. PhoneNumber_init U countries number region = Inr self
         \<longrightarrow> self_number self = normalize_number U number)"
proof -
  have a: "\<forall>c\<in>set (normalize_number U raw). isdigit U c \<or> c = 43"
    by (simp add: normalize_number_def)
  have b: "subseq (normalize_number U raw) raw"
    by (simp add: normalize_number_def)
  have c: "filter (isdigit U) (normalize_number U raw) = filter (isdigit U) raw"
    by (simp add: normalize_number_def) (metis (mono_tags, lifting) filter_cong)
  have d: "count_list (normalize_number U raw) 43 = count_list raw 43"
    unfolding normalize_number_def by (rule count_list_filter_keep) simp
  have e: "\<forall>number region self. PhoneNumber_init U countries number region = Inr self
         \<longrightarrow> self_number self = normalize_number U number"
    by (auto simp: PhoneNumber_init_def Let_def split: if_splits)
  from a b c d e show ?thesis by blast
qed

theorem normalize_number_digits_and_plus_witness:
  "normalize_number ascii_ucd (lit ''+1 (650) 555-1234'') = lit ''+16505551234''
   \<and> subseq (lit ''+16505551234'') (lit ''+1 (650) 555-1234'')
   \<and> count_list (lit ''+16505551234'') 43 = count_list (lit ''+1 (650) 555-1234'') 43"
proof -
  have v: "normalize_number ascii_ucd (lit ''+1 (650) 555-1234'') = lit ''+16505551234''"
    by (simp add: normalize_number_def lit_def isdigit_def)
  from normalize_number_digits_and_plus [of ascii_ucd "lit ''+1 (650) 555-1234''"]
  show ?thesis unfolding v by blast
qed

lemma digit_positions:
  "card {i. i < length s \<and> isdigit U (s ! i)} = length (filter (isdigit U) s)"
  by (simp add: length_filter_conv_card)

text \<open>
  Claim C5. For every \<open>PhoneNumber\<close>, \<open>is_valid\<close> is true if and only if the number
  of positions of its normalized number that hold a digit lies between 7 and 15, both
  included (a \<open>+\<close> is no digit and is not counted). For a \<open>PhoneNumber\<close> built from a
  raw string this is the number of digits of the raw string.
\<close>

theorem is_valid_iff_digit_count:
  "(is_valid U self \<longleftrightarrow>
      7 \<le> card {i. i < length (self_number self) \<and> isdigit U (self_number self ! i)}
      \<and> card {i. i < length (self_number self) \<and> isdigit U (self_number self ! i)} \<le> 15)
   \<and> (PhoneNumber_init U countries number region = Inr self \<longrightarrow>
        (is_valid U self \<longleftrightarrow>
           7 \<le> card {i. i < length number \<and> isdigit U (number ! i)}
           \<and> card {i. i < length number \<and> isdigit U (number ! i)} \<le> 15))"
proof -
  have a: "is_valid U self \<longleftrightarrow>
      7 \<le> length (filter (isdigit U) (self_number self))
      \<and> length (filter (isdigit U) (self_number self)) \<le> 15"
    by (cases "self_number self = []") (simp_all add: is_valid_def Let_def)
  have b: "length (filter (isdigit U) (self_number self)) = length (filter (isdigit U) number)"
    if "PhoneNumber_init U countries number region = Inr self"
  proof -
    from that have "self_number self = normalize_number U number"
      by (auto simp: PhoneNumber_init_def Let_def split: if_splits)
    moreover have "filter (isdigit U) (normalize_number U number) = filter (isdigit U) number"
      by (simp add: normalize_number_def) (metis (mono_tags, lifting) filter_cong)
    ultimately show ?thesis by simp
  qed
  show ?thesis
    unfolding digit_positions using a b by auto
qed

theorem is_valid_iff_digit_count_witness:
  "is_valid ascii_ucd \<lparr>self_number = lit ''+16505551234'', self_region = None\<rparr>
   \<and> \<not> is_valid ascii_ucd \<lparr>self_number = lit ''+123456'', self_region = None\<rparr>
   \<and> \<not> is_valid ascii_ucd \<lparr>self_number = lit ''1234567890123456'', self_region = None\<rparr>
   \<and> PhoneNumber_init ascii_ucd [] (lit ''+1 650-555-1234'') None
       = Inr \<lparr>self_number = lit ''+16505551234'', self_region = None\<rparr>"
proof -
  have c: "length (filter (isdigit ascii_ucd) (lit ''+1 650-555-1234'')) = 11"
    "length (filter (isdigit ascii_ucd) (lit ''+123456'')) = 6"
    "length (filter (isdigit ascii_ucd) (lit ''1234567890123456'')) = 16"
    by (simp_all add: lit_def isdigit_def)
  have i: "PhoneNumber_init ascii_ucd [] (lit ''+1 650-555-1234'') None
       = Inr \<lparr>self_number = lit ''+16505551234'', self_region = None\<rparr>"
    by (simp add: PhoneNumber_init_def normalize_number_def detect_region_def lit_def
        isdigit_def Let_def startswith_def)
  have t: "is_valid ascii_ucd \<lparr>self_number = lit ''+16505551234'', self_region = None\<rparr>
      \<longleftrightarrow> 7 \<le> length (filter (isdigit ascii_ucd) (lit ''+1 650-555-1234''))
        \<and> length (filter (isdigit ascii_ucd) (lit ''+1 650-555-1234'')) \<le> 15"
    using is_valid_iff_digit_count
        [of ascii_ucd "\<lparr>self_number = lit ''+16505551234'', self_region = None\<rparr>"
          "[]" "lit ''+1 650-555-1234''" None, THEN conjunct2, unfolded digit_positions] i
    by blast
  have v: "is_valid ascii_ucd \<lparr>self_number = lit ''+16505551234'', self_region = None\<rparr>"
    unfolding t c(1) by simp
  have n1: "\<not> is_valid ascii_ucd \<lparr>self_number = lit ''+123456'', self_region = None\<rparr>"
    using is_valid_iff_digit_count
        [of ascii_ucd "\<lparr>self_number = lit ''+123456'', self_region = None\<rparr>"] c(2)
    unfolding digit_positions by simp
  have n2: "\<not> is_valid ascii_ucd
      \<lparr>self_number = lit ''1234567890123456'', self_region = None\<rparr>"
    using is_valid_iff_digit_count
        [of ascii_ucd "\<lparr>self_number = lit ''1234567890123456'', self_region = None\<rparr>"] c(3)
    unfolding digit_positions by simp
  from v n1 n2 i show ?thesis by blast
qed

section \<open>Properties of the cache and of the download\<close>



subsection \<open>The subtraction of two floats against the time to live\<close>

lemma round_half_even_bounds:
  "\<lfloor>y\<rfloor> \<le> round_half_even y" "round_half_even y \<le> \<lfloor>y\<rfloor> + 1"
  by (simp_all add: round_half_even_def Let_def)

lemma round_half_even_le_ceiling: "round_half_even y \<le> \<lceil>y\<rceil>"
proof (cases "y = of_int \<lfloor>y\<rfloor>")
  case True
  then have "round_half_even y = \<lfloor>y\<rfloor>" by (simp add: round_half_even_def Let_def)
  then show ?thesis by (simp add: floor_le_ceiling)
next
  case False
  then have "\<lceil>y\<rceil> = \<lfloor>y\<rfloor> + 1" by (simp add: ceiling_altdef)
  then show ?thesis using round_half_even_bounds(2) [of y] by simp
qed

lemma round_half_even_gt_even:
  assumes "even N"
  shows "round_half_even y > N \<longleftrightarrow> y > of_int N + 1 / 2"
proof
  assume gt: "round_half_even y > N"
  show "y > of_int N + 1 / 2"
  proof (rule ccontr)
    assume "\<not> y > of_int N + 1 / 2"
    then have le: "y \<le> of_int N + 1 / 2" by simp
    then have fl: "\<lfloor>y\<rfloor> \<le> N" by linarith
    show False
    proof (cases "\<lfloor>y\<rfloor> = N")
      case True
      then have "y - of_int \<lfloor>y\<rfloor> \<le> 1 / 2" using le by simp
      then have "round_half_even y = N"
        using True assms by (auto simp: round_half_even_def Let_def)
      with gt show False by simp
    next
      case False
      with fl have "\<lfloor>y\<rfloor> + 1 \<le> N" by simp
      with round_half_even_bounds(2) [of y] gt show False by simp
    qed
  qed
next
  assume gt: "y > of_int N + 1 / 2"
  then have fl: "N \<le> \<lfloor>y\<rfloor>" by linarith
  show "round_half_even y > N"
  proof (cases "\<lfloor>y\<rfloor> = N")
    case True
    then have "y - of_int \<lfloor>y\<rfloor> > 1 / 2" using gt by simp
    then have "round_half_even y = N + 1"
      using True by (auto simp: round_half_even_def Let_def)
    then show ?thesis by simp
  next
    case False
    with fl have "N < \<lfloor>y\<rfloor>" by simp
    with round_half_even_bounds(1) [of y] show ?thesis by simp
  qed
qed

lemma double_ulp_pos: "0 < double_ulp x"
  by (simp add: double_ulp_def)

lemma double_ulp_binade:
  assumes "2 powr of_int e \<le> \<bar>x\<bar>" "\<bar>x\<bar> < 2 powr (of_int e + 1)" "- 1022 \<le> e"
  shows "double_ulp x = 2 powr (of_int e - 52)"
proof -
  have pos: "0 < \<bar>x\<bar>" using assms(1) by (smt (verit) powr_gt_zero)
  have "\<lfloor>log 2 \<bar>x\<bar>\<rfloor> = e"
    using assms(1,2) pos by (simp add: floor_log_eq_powr_iff)
  then show ?thesis using assms(3) by (simp add: double_ulp_def)
qed

lemma two_powr_shift: "(2 :: real) powr (a + 1) = 2 powr 53 * 2 powr (a - 52)"
proof -
  have "(2 :: real) powr 53 * 2 powr (a - 52) = 2 powr (53 + (a - 52))"
    by (rule powr_add [symmetric])
  also have "53 + (a - 52) = a + 1" by simp
  finally show ?thesis by simp
qed

lemma double_ulp_lower:
  assumes "x \<noteq> 0"
  shows "\<bar>x\<bar> < 2 powr 53 * double_ulp x"
proof -
  have pos: "0 < \<bar>x\<bar>" using assms by simp
  define e where "e = \<lfloor>log 2 \<bar>x\<bar>\<rfloor>"
  have "\<bar>x\<bar> < 2 powr (of_int e + 1)"
    using pos floor_log_eq_powr_iff [of "\<bar>x\<bar>" 2 e] by (simp add: e_def)
  also have "\<dots> \<le> 2 powr (of_int (max e (- 1022)) + 1)"
    by (rule powr_mono) simp_all
  also have "\<dots> = 2 powr 53 * double_ulp x"
    unfolding double_ulp_def e_def by (rule two_powr_shift)
  finally show ?thesis .
qed

lemma floor_log_less:
  assumes "0 < d" "d < 2 powr of_int k"
  shows "\<lfloor>log 2 d\<rfloor> < k"
proof (rule ccontr)
  assume "\<not> \<lfloor>log 2 d\<rfloor> < k"
  then have "(2 :: real) powr of_int k \<le> 2 powr of_int \<lfloor>log 2 d\<rfloor>"
    by (intro powr_mono) simp_all
  also have "\<dots> \<le> d"
    using assms(1) floor_log_eq_powr_iff [of d 2 "\<lfloor>log 2 d\<rfloor>"] by simp
  finally show False using assms(2) by simp
qed

lemma round_double_below:
  assumes "0 < d" "d < 2 powr of_int k" "- 1022 < k"
  shows "round_double d \<le> 2 powr of_int k"
proof -
  define u where "u = double_ulp d"
  have u: "0 < u" by (simp add: u_def double_ulp_pos)
  define e where "e = max \<lfloor>log 2 \<bar>d\<bar>\<rfloor> (- 1022)"
  have "\<lfloor>log 2 d\<rfloor> < k" using assms(1,2) by (rule floor_log_less)
  then have ek: "e + 1 \<le> k" using assms by (simp add: e_def)
  have ue: "u = 2 powr (of_int e - 52)" by (simp add: u_def double_ulp_def e_def)
  have "d < 2 powr 53 * u" using double_ulp_lower [of d] assms by (simp add: u_def)
  then have "d / u < 2 powr 53" using u by (simp add: pos_divide_less_eq)
  then have "d / u \<le> of_int (2 ^ 53)" by simp
  then have "\<lceil>d / u\<rceil> \<le> 2 ^ 53" by (simp only: ceiling_le_iff)
  then have "round_half_even (d / u) \<le> 2 ^ 53"
    using round_half_even_le_ceiling [of "d / u"] by linarith
  then have "real_of_int (round_half_even (d / u)) \<le> real_of_int (2 ^ 53)"
    by (simp only: of_int_le_iff)
  then have "of_int (round_half_even (d / u)) * u \<le> of_int (2 ^ 53) * u"
    using u by (simp only: mult_le_cancel_right_pos)
  also have "real_of_int (2 ^ 53) * u = 2 powr 53 * 2 powr (of_int e - 52)"
    unfolding ue by simp
  also have "\<dots> = 2 powr (of_int e + 1)"
    by (rule two_powr_shift [symmetric])
  also have "\<dots> \<le> 2 powr of_int k"
    by (rule powr_mono) (use ek in simp_all)
  finally show ?thesis using assms by (simp add: round_double_def u_def)
qed

lemma round_double_above:
  assumes "2 powr of_int k \<le> d" "- 1022 \<le> k"
  shows "2 powr of_int k \<le> round_double d"
proof -
  have pos: "0 < d" using assms(1) by (smt (verit) powr_gt_zero)
  define u where "u = double_ulp d"
  have u: "0 < u" by (simp add: u_def double_ulp_pos)
  define e where "e = \<lfloor>log 2 d\<rfloor>"
  have bin: "2 powr of_int e \<le> d" "d < 2 powr (of_int e + 1)"
    using pos floor_log_eq_powr_iff [of d 2 e] by (simp_all add: e_def)
  have ke: "k \<le> e"
  proof (rule ccontr)
    assume "\<not> k \<le> e"
    then have "e + 1 \<le> k" by simp
    then have "(2 :: real) powr (of_int e + 1) \<le> 2 powr of_int k"
      by (intro powr_mono) simp_all
    with bin(2) assms(1) show False by simp
  qed
  have "max e (- 1022) = e" using ke assms(2) by simp
  then have ue: "u = 2 powr (of_int e - 52)"
    using pos by (simp add: u_def double_ulp_def e_def)
  have "2 powr 52 * u = 2 powr (52 + (of_int e - 52))"
    unfolding ue by (rule powr_add [symmetric])
  then have eu: "2 powr 52 * u = 2 powr of_int e" by simp
  have "2 powr 52 * u \<le> d" using bin(1) eu by simp
  then have "2 powr 52 \<le> d / u" using u by (simp add: pos_le_divide_eq)
  then have "of_int (2 ^ 52) \<le> d / u" by simp
  then have "2 ^ 52 \<le> \<lfloor>d / u\<rfloor>" by (simp only: le_floor_iff)
  then have "2 ^ 52 \<le> round_half_even (d / u)"
    using round_half_even_bounds(1) [of "d / u"] by linarith
  then have "real_of_int (2 ^ 52) \<le> real_of_int (round_half_even (d / u))"
    by (simp only: of_int_le_iff)
  then have "of_int (2 ^ 52) * u \<le> of_int (round_half_even (d / u)) * u"
    using u by (simp only: mult_le_cancel_right_pos)
  moreover have "real_of_int (2 ^ 52) * u = 2 powr of_int e"
    using eu by simp
  ultimately have "2 powr of_int e \<le> of_int (round_half_even (d / u)) * u"
    by simp
  moreover have "(2 :: real) powr of_int k \<le> 2 powr of_int e"
    by (rule powr_mono) (use ke in simp_all)
  ultimately have "2 powr of_int k \<le> of_int (round_half_even (d / u)) * u"
    by (rule order_trans [rotated])
  then show ?thesis using pos by (simp add: round_double_def u_def)
qed

lemma round_double_nonpos:
  assumes "d \<le> 0"
  shows "round_double d \<le> 0"
proof (cases "d = 0")
  case True
  then show ?thesis by (simp add: round_double_def)
next
  case False
  have u: "0 < double_ulp d" by (rule double_ulp_pos)
  have "d / double_ulp d \<le> 0" using assms u by (simp add: divide_nonpos_pos)
  then have "\<lceil>d / double_ulp d\<rceil> \<le> 0" by (simp add: ceiling_le_iff)
  then have "round_half_even (d / double_ulp d) \<le> 0"
    using round_half_even_le_ceiling [of "d / double_ulp d"] by linarith
  then have "real_of_int (round_half_even (d / double_ulp d)) * double_ulp d \<le> 0"
    using u by (simp add: mult_le_0_iff)
  then show ?thesis using False by (simp add: round_double_def)
qed

lemma round_double_binade_16:
  assumes "65536 \<le> d" "d < 131072"
  shows "round_double d = of_int (round_half_even (d * 2 ^ 36)) / 2 ^ 36"
proof -
  have "double_ulp d = 2 powr (of_int 16 - 52)"
    by (rule double_ulp_binade) (use assms in simp_all)
  also have "of_int 16 - 52 = - (36 :: real)" by simp
  also have "(2 :: real) powr - 36 = 1 / 2 ^ 36"
    by (simp add: powr_minus divide_simps)
  finally have u: "double_ulp d = 1 / 2 ^ 36" .
  show ?thesis using assms unfolding round_double_def u by simp
qed

lemma round_double_gt_ttl: "round_double d > 86400 \<longleftrightarrow> d > 86400 + 1 / 2 ^ 37"
proof -
  consider "d \<le> 0" | "0 < d" "d < 65536" | "65536 \<le> d" "d < 131072" | "131072 \<le> d"
    by linarith
  then show ?thesis
  proof cases
    case 1
    then show ?thesis using round_double_nonpos [of d] by simp
  next
    case 2
    have "round_double d \<le> 2 powr of_int 16"
      by (rule round_double_below) (use 2 in simp_all)
    then show ?thesis using 2 by simp
  next
    case 3
    have ev: "even (86400 * 2 ^ 36 :: int)" by simp
    have "round_double d > 86400
        \<longleftrightarrow> of_int (round_half_even (d * 2 ^ 36)) > (86400 * 2 ^ 36 :: real)"
      unfolding round_double_binade_16 [OF 3] by (simp add: divide_simps)
    also have "\<dots> \<longleftrightarrow> round_half_even (d * 2 ^ 36) > 86400 * 2 ^ 36"
      by (metis (no_types) of_int_less_iff of_int_mult of_int_numeral of_int_power)
    also have "\<dots> \<longleftrightarrow> d * 2 ^ 36 > of_int (86400 * 2 ^ 36) + 1 / 2"
      by (rule round_half_even_gt_even [OF ev])
    also have "\<dots> \<longleftrightarrow> d > 86400 + 1 / 2 ^ 37"
      by (simp add: field_simps)
    finally show ?thesis .
  next
    case 4
    have "2 powr of_int 17 \<le> round_double d"
      by (rule round_double_above) (use 4 in simp_all)
    then show ?thesis using 4 by simp
  qed
qed

lemma is_expired_pickled:
  "fs (get_cache_path h dir key) = Some (Pickled e)
     \<Longrightarrow> is_expired h dir fs t key \<longleftrightarrow> t - entry_timestamp e > 86400 + 1 / 2 ^ 37"
  by (simp add: is_expired_def float_sub_def CACHE_TTL_def round_double_gt_ttl)

text \<open>
  Claim C7, as stated, fails where it says that \<open>is_expired\<close> is true once the stored
  timestamp is older than the time to live. With the double nearest to 0.1 as the
  timestamp of the \<open>set\<close> and the double nearest to 86400.1 as the clock, the entry is
  older than 86400 seconds, and the subtraction of the two floats gives 86400.0, which is
  not greater than \<open>CACHE_TTL\<close>: \<open>is_expired\<close> is false.
\<close>

theorem is_expired_loses_small_excess:
  "(2968684830969037 / 34359738368 :: real) - 3602879701896397 / 36028797018963968 > 86400
   \<and> fst (cache_set (\<lambda>k. k) (lit ''/c'') Map.empty (3602879701896397 / 36028797018963968)
            Written (lit ''k'') (Some (5 :: nat)))
   \<and> \<not> is_expired (\<lambda>k. k) (lit ''/c'')
          (snd (cache_set (\<lambda>k. k) (lit ''/c'') Map.empty (3602879701896397 / 36028797018963968)
                  Written (lit ''k'') (Some (5 :: nat))))
          (2968684830969037 / 34359738368) (lit ''k'')"
proof -
  have f: "snd (cache_set (\<lambda>k. k) (lit ''/c'') Map.empty (3602879701896397 / 36028797018963968)
                  Written (lit ''k'') (Some (5 :: nat)))
             (get_cache_path (\<lambda>k. k) (lit ''/c'') (lit ''k''))
           = Some (Pickled \<lparr>entry_data = Some 5,
                entry_timestamp = 3602879701896397 / 36028797018963968\<rparr>)"
    by (simp add: cache_set_def Let_def)
  have "\<not> is_expired (\<lambda>k. k) (lit ''/c'')
          (snd (cache_set (\<lambda>k. k) (lit ''/c'') Map.empty (3602879701896397 / 36028797018963968)
                  Written (lit ''k'') (Some (5 :: nat))))
          (2968684830969037 / 34359738368) (lit ''k'')"
    unfolding is_expired_pickled
      [where fs = "snd (cache_set (\<lambda>k. k) (lit ''/c'') Map.empty
          (3602879701896397 / 36028797018963968) Written (lit ''k'') (Some (5 :: nat)))"
        and h = "\<lambda>k. k" and dir = "lit ''/c''" and key = "lit ''k''", OF f]
    by simp
  then show ?thesis by (simp add: cache_set_def Let_def)
qed

text \<open>
  Claim C7, amended. After a \<open>set(key, v)\<close> that succeeded at the time \<open>t0\<close>,
  \<open>get(key)\<close> returns \<open>v\<close> and changes nothing; \<open>is_expired(key)\<close> is false at
  \<open>t0\<close> and at every time \<open>t\<close> up to 86400 seconds later; and it is true exactly from
  the time when the entry is older than 86400 seconds by more than \<open>1 / 2 ^ 37\<close> second,
  half the spacing of the doubles at 86400. The same holds once the stored timestamp is
  replaced by a \<open>t1\<close>. A \<open>set\<close> returns \<open>True\<close> only for a key that encodes; in
  a directory that can then be searched, \<open>get\<close> and \<open>is_expired\<close> raise nothing
  and give these results. (That \<open>gzip\<close> and \<open>pickle\<close> give back what they were
  given is the meaning of \<open>Pickled\<close>.)
\<close>

theorem set_then_get_and_expiry:
  assumes "cache_set h dir fs t0 outcome key v = (True, fs')"
  shows "fst (cache_get h dir fs' key) = v
       \<and> snd (cache_get h dir fs' key) = fs'
       \<and> \<not> is_expired h dir fs' t0 key
       \<and> (t - t0 \<le> 86400 \<longrightarrow> \<not> is_expired h dir fs' t key)
       \<and> (is_expired h dir fs' t key \<longleftrightarrow> t - t0 > 86400 + 1 / 2 ^ 37)
       \<and> (is_expired h dir
             (fs'(get_cache_path h dir key \<mapsto>
                    Pickled \<lparr>entry_data = v, entry_timestamp = t1\<rparr>)) t key
            \<longleftrightarrow> t - t1 > 86400 + 1 / 2 ^ 37)
       \<and> (utf8_encodable key \<longrightarrow>
            set_or_raise h dir fs t0 outcome key v = (Inr True, fs'))
       \<and> (utf8_encodable key \<and> \<not> exists_raises faults \<longrightarrow>
            get_or_raise faults h dir fs' key = (Inr v, fs')
            \<and> is_expired_or_raise faults h dir fs' t key
                = Inr (t - t0 > 86400 + 1 / 2 ^ 37))"
proof -
  from assms have w: "outcome = Written"
    by (cases outcome) (simp_all add: cache_set_def Let_def)
  with assms have fs': "fs' = fs(get_cache_path h dir key \<mapsto>
      Pickled \<lparr>entry_data = v, entry_timestamp = t0\<rparr>)"
    by (simp add: cache_set_def Let_def)
  have e: "fs' (get_cache_path h dir key)
      = Some (Pickled \<lparr>entry_data = v, entry_timestamp = t0\<rparr>)"
    by (simp add: fs')
  have e1: "(fs'(get_cache_path h dir key \<mapsto>
                    Pickled \<lparr>entry_data = v, entry_timestamp = t1\<rparr>)) (get_cache_path h dir key)
      = Some (Pickled \<lparr>entry_data = v, entry_timestamp = t1\<rparr>)"
    by simp
  have g: "cache_get h dir fs' key = (v, fs')"
    using e by (simp add: cache_get_def)
  have pos: "(0 :: real) < 1 / 2 ^ 37" by simp
  note x = is_expired_pickled [where fs = fs' and h = h and dir = dir and key = key, OF e]
  note x1 = is_expired_pickled
    [where fs = "fs'(get_cache_path h dir key \<mapsto>
        Pickled \<lparr>entry_data = v, entry_timestamp = t1\<rparr>)"
      and h = h and dir = dir and key = key, OF e1]
  have core: "fst (cache_get h dir fs' key) = v
       \<and> snd (cache_get h dir fs' key) = fs'
       \<and> \<not> is_expired h dir fs' t0 key
       \<and> (t - t0 \<le> 86400 \<longrightarrow> \<not> is_expired h dir fs' t key)
       \<and> (is_expired h dir fs' t key \<longleftrightarrow> t - t0 > 86400 + 1 / 2 ^ 37)
       \<and> (is_expired h dir
             (fs'(get_cache_path h dir key \<mapsto>
                    Pickled \<lparr>entry_data = v, entry_timestamp = t1\<rparr>)) t key
            \<longleftrightarrow> t - t1 > 86400 + 1 / 2 ^ 37)"
    unfolding x x1 g using pos by simp
  have s: "set_or_raise h dir fs t0 outcome key v = (Inr True, fs')" if "utf8_encodable key"
    using that assms by (simp add: set_or_raise_def)
  have r: "get_or_raise faults h dir fs' key = (Inr v, fs')
            \<and> is_expired_or_raise faults h dir fs' t key
                = Inr (t - t0 > 86400 + 1 / 2 ^ 37)"
    if "utf8_encodable key \<and> \<not> exists_raises faults"
    using that e g x by (simp add: get_or_raise_def is_expired_or_raise_def)
  from core s r show ?thesis by blast
qed

theorem set_then_get_and_expiry_witness:
  "fst (cache_get (\<lambda>k. k) (lit ''/c'')
          (snd (cache_set (\<lambda>k. k) (lit ''/c'') Map.empty 1000 Written (lit ''k'') (Some (5 :: nat))))
          (lit ''k'')) = Some 5
   \<and> \<not> is_expired (\<lambda>k. k) (lit ''/c'')
          (snd (cache_set (\<lambda>k. k) (lit ''/c'') Map.empty 1000 Written (lit ''k'') (Some (5 :: nat))))
          1000 (lit ''k'')
   \<and> \<not> is_expired (\<lambda>k. k) (lit ''/c'')
          (snd (cache_set (\<lambda>k. k) (lit ''/c'') Map.empty 1000 Written (lit ''k'') (Some (5 :: nat))))
          87400 (lit ''k'')
   \<and> is_expired (\<lambda>k. k) (lit ''/c'')
          (snd (cache_set (\<lambda>k. k) (lit ''/c'') Map.empty 1000 Written (lit ''k'') (Some (5 :: nat))))
          87401 (lit ''k'')"
proof -
  have s: "cache_set (\<lambda>k. k) (lit ''/c'') Map.empty 1000 Written (lit ''k'') (Some (5 :: nat))
      = (True, snd (cache_set (\<lambda>k. k) (lit ''/c'') Map.empty 1000 Written (lit ''k'')
          (Some (5 :: nat))))"
    by (simp add: cache_set_def Let_def)
  note t = set_then_get_and_expiry [OF s]
  have a: "(87400 :: real) - 1000 \<le> 86400"
    and b: "(87401 :: real) - 1000 > 86400 + 1 / 2 ^ 37"
    by simp_all
  from t [of 0 0] have g: "fst (cache_get (\<lambda>k. k) (lit ''/c'')
          (snd (cache_set (\<lambda>k. k) (lit ''/c'') Map.empty 1000 Written (lit ''k'') (Some (5 :: nat))))
          (lit ''k'')) = Some 5"
    and n0: "\<not> is_expired (\<lambda>k. k) (lit ''/c'')
          (snd (cache_set (\<lambda>k. k) (lit ''/c'') Map.empty 1000 Written (lit ''k'') (Some (5 :: nat))))
          1000 (lit ''k'')"
    by blast+
  from t [of 87400 0] a have n1: "\<not> is_expired (\<lambda>k. k) (lit ''/c'')
          (snd (cache_set (\<lambda>k. k) (lit ''/c'') Map.empty 1000 Written (lit ''k'') (Some (5 :: nat))))
          87400 (lit ''k'')"
    by blast
  from t [of 87401 0] b have e: "is_expired (\<lambda>k. k) (lit ''/c'')
          (snd (cache_set (\<lambda>k. k) (lit ''/c'') Map.empty 1000 Written (lit ''k'') (Some (5 :: nat))))
          87401 (lit ''k'')"
    by blast
  from g n0 n1 e show ?thesis by blast
qed

subsection \<open>The download that fails\<close>

lemma get_or_raise_again:
  assumes "get_or_raise os h dir fs key = (Inr r, fs1)"
  shows "get_or_raise os h dir fs1 key = (Inr r, fs1)"
proof -
  from assms have ok: "utf8_encodable key" "\<not> exists_raises os"
    and res: "cache_get h dir fs key = (r, fs1)"
    by (auto simp: get_or_raise_def split: if_splits)
  from res have "cache_get h dir fs1 key = (r, fs1)"
    and "fs1 (get_cache_path h dir key) \<noteq> Some Garbage"
    by (auto simp: cache_get_def Let_def split: option.splits content.splits)
  with ok show ?thesis by (simp add: get_or_raise_def)
qed

lemma is_expired_or_raise_after_get:
  assumes "get_or_raise os h dir fs key = (Inr r, fs1)"
  shows "is_expired_or_raise os h dir fs1 now key = Inr (is_expired h dir fs1 now key)"
  using assms by (auto simp: get_or_raise_def is_expired_or_raise_def split: if_splits)

lemma download_raises_as_get:
  assumes "urlopen url = Raises"
  shows "download_json os h dir policy urlopen fs now now' outcome url key
           = get_or_raise os h dir fs key"
proof (cases policy)
  case NETWORK_FIRST
  then show ?thesis using assms by (simp add: download_json_def download_try_def)
next
  case CACHE_FIRST
  obtain x fs1 where g: "get_or_raise os h dir fs key = (x, fs1)"
    by (cases "get_or_raise os h dir fs key") blast
  show ?thesis
  proof (cases x)
    case (Inl e)
    with g have "fs1 = fs" by (auto simp: get_or_raise_def split: if_splits)
    with Inl g CACHE_FIRST show ?thesis
      by (simp add: download_json_def download_try_def)
  next
    case (Inr r)
    note again = get_or_raise_again [OF g [unfolded Inr]]
    note exp = is_expired_or_raise_after_get [OF g [unfolded Inr], of now]
    from Inr g CACHE_FIRST assms again exp show ?thesis
      by (simp add: download_json_def download_try_def)
  qed
qed

text \<open>
  Claim C3, as stated, fails where it says that the failure never reaches the caller and
  that \<open>None\<close> is returned without a cache entry: the \<open>except\<close> clause calls
  \<open>get\<close>, and what \<open>get\<close> raises there is raised by \<open>_download_json\<close>. With a
  cache key that holds a surrogate (\<open>'\ud800'\<close>) it is \<open>UnicodeEncodeError\<close>, under
  either policy; with a cache directory that cannot be searched it is
  \<open>PermissionError\<close>.
\<close>

theorem download_failure_raises_from_get:
  "fst (download_json \<lparr>exists_raises = False, unlink_raises = False\<rparr> (\<lambda>k. k) (lit ''/c'')
          NETWORK_FIRST (\<lambda>u. (Raises :: nat response)) Map.empty 0 0 Written
          (lit ''http://x'') [55296]) = Inl UnicodeEncodeError
   \<and> fst (download_json \<lparr>exists_raises = False, unlink_raises = False\<rparr> (\<lambda>k. k) (lit ''/c'')
          CACHE_FIRST (\<lambda>u. (Raises :: nat response)) Map.empty 0 0 Written
          (lit ''http://x'') [55296]) = Inl UnicodeEncodeError
   \<and> fst (download_json \<lparr>exists_raises = True, unlink_raises = False\<rparr> (\<lambda>k. k) (lit ''/c'')
          CACHE_FIRST (\<lambda>u. (Raises :: nat response)) Map.empty 0 0 Written
          (lit ''http://x'') (lit ''country_data'')) = Inl PermissionError"
  by (simp add: download_json_def download_try_def get_or_raise_def utf8_encodable_def lit_def)

text \<open>
  Claim C3, amended. For every URL whose fetch or parsing raises, and every cache key,
  policy, file system and time, \<open>_download_json\<close> does what \<open>get(cache_key)\<close> does.
  For a key that encodes as UTF-8 in a directory that can be searched, it returns the
  value stored under the key, whether the entry is expired or not, \<open>None\<close> when there
  is no entry, and \<open>None\<close> when the entry is corrupt and can be removed: the failure of
  the download does not reach the caller. When \<open>get\<close> itself raises (a key that does
  not encode, a directory that cannot be searched, a corrupt file that cannot be removed),
  that exception reaches the caller.
\<close>

theorem download_failure_answers_from_cache:
  assumes "urlopen url = Raises"
  shows "download_json os h dir policy urlopen fs now now' outcome url key
           = get_or_raise os h dir fs key
       \<and> (utf8_encodable key \<and> \<not> exists_raises os
            \<and> fs (get_cache_path h dir key) = None \<longrightarrow>
            download_json os h dir policy urlopen fs now now' outcome url key = (Inr None, fs))
       \<and> (\<forall>e. utf8_encodable key \<and> \<not> exists_raises os
            \<and> fs (get_cache_path h dir key) = Some (Pickled e) \<longrightarrow>
            download_json os h dir policy urlopen fs now now' outcome url key
              = (Inr (entry_data e), fs))
       \<and> (utf8_encodable key \<and> \<not> exists_raises os \<and> \<not> unlink_raises os
            \<and> fs (get_cache_path h dir key) = Some Garbage \<longrightarrow>
            download_json os h dir policy urlopen fs now now' outcome url key
              = (Inr None, fs(get_cache_path h dir key := None)))
       \<and> (\<not> utf8_encodable key \<longrightarrow>
            download_json os h dir policy urlopen fs now now' outcome url key
              = (Inl UnicodeEncodeError, fs))
       \<and> (utf8_encodable key \<and> exists_raises os \<longrightarrow>
            download_json os h dir policy urlopen fs now now' outcome url key
              = (Inl PermissionError, fs))
       \<and> (utf8_encodable key \<and> \<not> exists_raises os \<and> unlink_raises os
            \<and> fs (get_cache_path h dir key) = Some Garbage \<longrightarrow>
            download_json os h dir policy urlopen fs now now' outcome url key
              = (Inl PermissionError, fs))"
proof -
  have eq: "download_json os h dir policy urlopen fs now now' outcome url key
           = get_or_raise os h dir fs key"
    using assms by (rule download_raises_as_get)
  show ?thesis
    unfolding eq by (simp add: get_or_raise_def cache_get_def)
qed

theorem download_failure_answers_from_cache_witness:
  "download_json \<lparr>exists_raises = False, unlink_raises = False\<rparr> (\<lambda>k. k) (lit ''/c'')
      CACHE_FIRST (\<lambda>u. Raises)
      [lit ''/c/k.cache'' \<mapsto> Pickled \<lparr>entry_data = Some (7 :: nat), entry_timestamp = 0\<rparr>]
      1000000 1000000 Written (lit ''http://x'') (lit ''k'')
    = (Inr (Some 7),
       [lit ''/c/k.cache'' \<mapsto> Pickled \<lparr>entry_data = Some (7 :: nat), entry_timestamp = 0\<rparr>])
   \<and> is_expired (\<lambda>k. k) (lit ''/c'')
          [lit ''/c/k.cache'' \<mapsto> Pickled \<lparr>entry_data = Some (7 :: nat), entry_timestamp = 0\<rparr>]
          1000000 (lit ''k'')
   \<and> download_json \<lparr>exists_raises = False, unlink_raises = False\<rparr> (\<lambda>k. k) (lit ''/c'')
        NETWORK_FIRST (\<lambda>u. (Raises :: nat response))
        Map.empty 0 0 Written (lit ''http://x'') (lit ''k'') = (Inr None, Map.empty)"
proof -
  have p: "get_cache_path (\<lambda>k. k) (lit ''/c'') (lit ''k'') = lit ''/c/k.cache''"
    by (simp add: get_cache_path_def lit_def)
  have r: "(\<lambda>u. (Raises :: nat response)) (lit ''http://x'') = Raises"
    by simp
  have k: "utf8_encodable (lit ''k'')"
    by (simp add: utf8_encodable_def lit_def)
  note t = download_failure_answers_from_cache
    [where urlopen = "\<lambda>u. (Raises :: nat response)" and url = "lit ''http://x''"
       and h = "\<lambda>k. k" and dir = "lit ''/c''" and key = "lit ''k''"
       and os = "\<lparr>exists_raises = False, unlink_raises = False\<rparr>", OF r]
  have f: "[lit ''/c/k.cache'' \<mapsto> Pickled \<lparr>entry_data = Some (7 :: nat), entry_timestamp = 0\<rparr>]
      (get_cache_path (\<lambda>k. k) (lit ''/c'') (lit ''k''))
      = Some (Pickled \<lparr>entry_data = Some 7, entry_timestamp = 0\<rparr>)"
    unfolding p by simp
  have nf: "\<not> exists_raises \<lparr>exists_raises = False, unlink_raises = False\<rparr>"
    by simp
  have a: "download_json \<lparr>exists_raises = False, unlink_raises = False\<rparr> (\<lambda>k. k)
      (lit ''/c'') CACHE_FIRST (\<lambda>u. Raises)
      [lit ''/c/k.cache'' \<mapsto> Pickled \<lparr>entry_data = Some (7 :: nat), entry_timestamp = 0\<rparr>]
      1000000 1000000 Written (lit ''http://x'') (lit ''k'')
    = (Inr (Some 7),
       [lit ''/c/k.cache'' \<mapsto> Pickled \<lparr>entry_data = Some (7 :: nat), entry_timestamp = 0\<rparr>])"
    using t [of CACHE_FIRST
        "[lit ''/c/k.cache'' \<mapsto> Pickled \<lparr>entry_data = Some (7 :: nat), entry_timestamp = 0\<rparr>]"
        1000000 1000000 Written, THEN conjunct2, THEN conjunct2, THEN conjunct1, rule_format,
        of "\<lparr>entry_data = Some (7 :: nat), entry_timestamp = 0\<rparr>"] k nf f
    by simp
  have b: "is_expired (\<lambda>k. k) (lit ''/c'')
          [lit ''/c/k.cache'' \<mapsto> Pickled \<lparr>entry_data = Some (7 :: nat), entry_timestamp = 0\<rparr>]
          1000000 (lit ''k'')"
    by (simp add: is_expired_pickled
          [where fs = "[lit ''/c/k.cache'' \<mapsto>
              Pickled \<lparr>entry_data = Some (7 :: nat), entry_timestamp = 0\<rparr>]"
            and h = "\<lambda>k. k" and dir = "lit ''/c''" and key = "lit ''k''", OF f])
  have c: "download_json \<lparr>exists_raises = False, unlink_raises = False\<rparr> (\<lambda>k. k) (lit ''/c'')
        NETWORK_FIRST (\<lambda>u. (Raises :: nat response))
        Map.empty 0 0 Written (lit ''http://x'') (lit ''k'') = (Inr None, Map.empty)"
    using t [of NETWORK_FIRST Map.empty 0 0 Written, THEN conjunct2, THEN conjunct1] k nf
    by simp
  from a b c show ?thesis by blast
qed

section \<open>Properties of the first use by several threads\<close>

lemma thread_step_past:
  assumes "metadata_handler p \<noteq> None" "At_construction \<notin> set (threads p)"
  shows "metadata_handler (thread_step p i) \<noteq> None
       \<and> At_construction \<notin> set (threads (thread_step p i))
       \<and> constructions (thread_step p i) = constructions p
       \<and> download_calls (thread_step p i) = download_calls p"
proof (cases "i < length (threads p)")
  case False
  then show ?thesis using assms by (simp add: thread_step_def)
next
  case True
  then have mem: "threads p ! i \<in> set (threads p)" by simp
  show ?thesis
  proof (cases "threads p ! i")
    case At_test
    have "set ((threads p)[i := Past]) \<subseteq> insert Past (set (threads p))"
      by (rule set_update_subset_insert)
    then show ?thesis using assms True At_test by (auto simp: thread_step_def)
  next
    case At_construction
    with mem assms(2) show ?thesis by simp
  next
    case Past
    then show ?thesis using assms True by (simp add: thread_step_def)
  qed
qed

lemma run_past:
  assumes "metadata_handler p \<noteq> None" "At_construction \<notin> set (threads p)"
  shows "constructions (run schedule p) = constructions p
       \<and> download_calls (run schedule p) = download_calls p"
  using assms
proof (induction schedule arbitrary: p)
  case Nil
  then show ?case by (simp add: run_def)
next
  case (Cons i rest)
  from thread_step_past [OF Cons.prems, of i] Cons.IH [of "thread_step p i"]
  show ?case by (simp add: run_def)
qed

lemma sequential_first_use:
  assumes "i < n"
  shows "constructions (run (i # i # schedule) (first_use n)) = 1
       \<and> download_calls (run (i # i # schedule) (first_use n)) = 2"
proof -
  let ?p = "thread_step (thread_step (first_use n) i) i"
  have a: "metadata_handler ?p \<noteq> None" "constructions ?p = 1" "download_calls ?p = 2"
    using assms by (simp_all add: thread_step_def first_use_def)
  have "threads ?p = (replicate n At_test)[i := Past]"
    using assms by (simp add: thread_step_def first_use_def)
  moreover have "set ((replicate n At_test)[i := Past]) \<subseteq> insert Past (set (replicate n At_test))"
    by (rule set_update_subset_insert)
  ultimately have b: "At_construction \<notin> set (threads ?p)" by auto
  have "run (i # i # schedule) (first_use n) = run schedule ?p" by (simp add: run_def)
  with run_past [OF a(1) b, of schedule] a(2,3) show ?thesis by simp
qed

text \<open>
  Claim C10 fails on the code. With two threads that construct their first
  \<open>PhoneNumber\<close> and the schedule 0, 1, 0, 1 (both pass the test before either
  constructs), \<open>_MetadataHandler()\<close> is constructed twice and \<open>_download_json\<close> is
  called four times. When the first thread runs both its steps before any other runs
  (\<open>sequential_first_use\<close>; the schedule 0, 0, 1, 1 here), there is one construction and
  one pair of downloads.
\<close>

theorem two_threads_construct_twice:
  "constructions (run [0, 1, 0, 1] (first_use 2)) = 2
   \<and> download_calls (run [0, 1, 0, 1] (first_use 2)) = 4
   \<and> threads (run [0, 1, 0, 1] (first_use 2)) = [Past, Past]
   \<and> constructions (run [0, 0, 1, 1] (first_use 2)) = 1
   \<and> download_calls (run [0, 0, 1, 1] (first_use 2)) = 2"
  by (simp add: run_def thread_step_def first_use_def numeral_2_eq_2)

end
